theory Spec2Isabelle
  imports Main "HOL-Library.AList"
begin

section \<open>Strings, characters and exceptions\<close>

text \<open>
  The contact manager of \<^verbatim>\<open>bot_assistant.py\<close> is embedded function by function.
  A Python \<^verbatim>\<open>str\<close> is a sequence of code points; it is modelled as a \<open>string\<close> whose
  characters are the code points below 256 (the Latin-1 block, which Python stores one
  byte per character), so \<open>length\<close> is Python's \<^verbatim>\<open>len\<close>. Code points from 256 on are
  outside the model.

  An exception is a value of type \<open>error\<close>; a function that may raise returns
  \<open>error + 'a\<close> with \<open>Inl\<close> for the exception.
\<close>

datatype error =
    ValueError string
  | KeyError
  | IndexError
  | TypeError
  | OverflowError string

definition ascii_digit :: "char \<Rightarrow> bool" where
  \<comment> \<open>the decimal digits \<^verbatim>\<open>0\<close> .. \<^verbatim>\<open>9\<close>; in Latin-1 these are all the characters of category Nd\<close>
  "ascii_digit c \<longleftrightarrow> 48 \<le> (of_char c :: nat) \<and> (of_char c :: nat) \<le> 57"

definition isdigit_char :: "char \<Rightarrow> bool" where
  \<comment> \<open>the characters \<^verbatim>\<open>c\<close> with \<^verbatim>\<open>c.isdigit()\<close>: Numeric_Type Decimal or Digit. Below 256
      these are \<^verbatim>\<open>0\<close> .. \<^verbatim>\<open>9\<close> and the superscripts U+00B2, U+00B3 and U+00B9.\<close>
  "isdigit_char c \<longleftrightarrow>
     ascii_digit c \<or> (of_char c :: nat) = 178 \<or> (of_char c :: nat) = 179
       \<or> (of_char c :: nat) = 185"

definition isdigit :: "string \<Rightarrow> bool" where
  \<comment> \<open>\<^verbatim>\<open>str.isdigit\<close>: at least one character, and all of them digits\<close>
  "isdigit s \<longleftrightarrow> s \<noteq> [] \<and> list_all isdigit_char s"

definition lower_char :: "char \<Rightarrow> char" where
  \<comment> \<open>\<^verbatim>\<open>str.lower\<close> on one code point below 256: \<^verbatim>\<open>A\<close> .. \<^verbatim>\<open>Z\<close> and U+00C0 .. U+00DE
      without the multiplication sign U+00D7 move up by 32\<close>
  "lower_char c =
     (let n = (of_char c :: nat)
      in if (65 \<le> n \<and> n \<le> 90) \<or> (192 \<le> n \<and> n \<le> 222 \<and> n \<noteq> 215)
         then char_of (n + 32) else c)"

definition lower :: "string \<Rightarrow> string" where
  "lower s = map lower_char s"

section \<open>Fields\<close>

text \<open>
  \<^verbatim>\<open>Field\<close> only stores its value, so a field is modelled by the stored string and each
  subclass by its validating constructor.
\<close>

definition Name :: "string \<Rightarrow> error + string" where
  "Name v = (if v = [] then Inl (ValueError ''Name can't be empty'') else Inr v)"

definition Phone :: "string \<Rightarrow> error + string" where
  "Phone v =
     (if \<not> (isdigit v \<and> length v = 10)
      then Inl (ValueError ''Phone number must be 10 digits'')
      else Inr v)"

section \<open>Calendar dates\<close>

text \<open>
  \<^verbatim>\<open>datetime.date\<close> of the standard library: a proleptic Gregorian date with a year
  from 1 to 9999. The functions follow the library's reference implementation
  (\<^verbatim>\<open>_pydatetime\<close>), with the messages of the C implementation that the program runs.
\<close>

record date =
  year :: int
  month :: int
  day :: int

definition is_leap :: "int \<Rightarrow> bool" where
  "is_leap y \<longleftrightarrow> y mod 4 = 0 \<and> (y mod 100 \<noteq> 0 \<or> y mod 400 = 0)"

definition days_in_month :: "int \<Rightarrow> int \<Rightarrow> int" where
  "days_in_month y m =
     (if m = 2 then (if is_leap y then 29 else 28)
      else if m = 4 \<or> m = 6 \<or> m = 9 \<or> m = 11 then 30 else 31)"

definition days_before_year :: "int \<Rightarrow> int" where
  "days_before_year y =
     (y - 1) * 365 + (y - 1) div 4 - (y - 1) div 100 + (y - 1) div 400"

definition days_before_month :: "int \<Rightarrow> int \<Rightarrow> int" where
  "days_before_month y m =
     (if m = 1 then 0 else if m = 2 then 31 else if m = 3 then 59 else if m = 4 then 90
      else if m = 5 then 120 else if m = 6 then 151 else if m = 7 then 181
      else if m = 8 then 212 else if m = 9 then 243 else if m = 10 then 273
      else if m = 11 then 304 else 334)
     + (if m > 2 \<and> is_leap y then 1 else 0)"

definition ymd2ord :: "int \<Rightarrow> int \<Rightarrow> int \<Rightarrow> int" where
  "ymd2ord y m d = days_before_year y + days_before_month y m + d"

definition ord2ymd :: "int \<Rightarrow> date" where
  \<comment> \<open>\<^verbatim>\<open>date.fromordinal\<close>. The library's tables \<^verbatim>\<open>_DAYS_BEFORE_MONTH\<close> and
      \<^verbatim>\<open>_DAYS_IN_MONTH\<close> are those of a year that is not a leap year, here the year 1;
      \<^verbatim>\<open>(n + 50) >> 5\<close> is the division by 32.\<close>
  "ord2ymd n0 =
     (let n = n0 - 1;
          n400 = n div 146097; n = n mod 146097;
          n100 = n div 36524; n = n mod 36524;
          n4 = n div 1461; n = n mod 1461;
          n1 = n div 365; n = n mod 365;
          y = n400 * 400 + 1 + n100 * 100 + n4 * 4 + n1
      in if n1 = 4 \<or> n100 = 4 then \<lparr>year = y - 1, month = 12, day = 31\<rparr>
         else
           let leapyear = (n1 = 3 \<and> (n4 \<noteq> 24 \<or> n100 = 3));
               m = (n + 50) div 32;
               preceding = days_before_month 1 m + (if m > 2 \<and> leapyear then 1 else 0)
           in if preceding > n
              then \<lparr>year = y, month = m - 1,
                     day = n - (preceding
                                - (days_in_month 1 (m - 1)
                                   + (if m - 1 = 2 \<and> leapyear then 1 else 0))) + 1\<rparr>
              else \<lparr>year = y, month = m, day = n - preceding + 1\<rparr>)"

definition MAXORDINAL :: int where
  "MAXORDINAL = 3652059"

definition valid_date :: "date \<Rightarrow> bool" where
  \<comment> \<open>the class invariant of \<^verbatim>\<open>date\<close>, what its constructor checks\<close>
  "valid_date d \<longleftrightarrow>
     1 \<le> year d \<and> year d \<le> 9999 \<and> 1 \<le> month d \<and> month d \<le> 12
       \<and> 1 \<le> day d \<and> day d \<le> days_in_month (year d) (month d)"

fun str_nat :: "nat \<Rightarrow> string" where
  "str_nat n = (if n < 10 then [char_of (48 + n)]
                else str_nat (n div 10) @ [char_of (48 + n mod 10)])"

definition str_int :: "int \<Rightarrow> string" where
  "str_int i = (if i < 0 then CHR ''-'' # str_nat (nat (- i)) else str_nat (nat i))"

definition new_date :: "int \<Rightarrow> int \<Rightarrow> int \<Rightarrow> error + date" where
  \<comment> \<open>\<^verbatim>\<open>date(year, month, day)\<close>\<close>
  "new_date y m d =
     (if \<not> (1 \<le> y \<and> y \<le> 9999)
      then Inl (ValueError (''year '' @ str_int y @ '' is out of range''))
      else if \<not> (1 \<le> m \<and> m \<le> 12) then Inl (ValueError ''month must be in 1..12'')
      else if \<not> (1 \<le> d \<and> d \<le> days_in_month y m)
      then Inl (ValueError ''day is out of range for month'')
      else Inr \<lparr>year = y, month = m, day = d\<rparr>)"

definition replace_year :: "date \<Rightarrow> int \<Rightarrow> error + date" where
  \<comment> \<open>\<^verbatim>\<open>d.replace(year=y)\<close> builds a new date and so validates it again\<close>
  "replace_year d y = new_date y (month d) (day d)"

definition toordinal :: "date \<Rightarrow> int" where
  "toordinal d = ymd2ord (year d) (month d) (day d)"

definition weekday :: "date \<Rightarrow> int" where
  \<comment> \<open>Monday is 0, Sunday is 6\<close>
  "weekday d = (toordinal d + 6) mod 7"

definition date_less :: "date \<Rightarrow> date \<Rightarrow> bool" where
  \<comment> \<open>\<^verbatim>\<open>a < b\<close> compares year, month and day in this order\<close>
  "date_less a b \<longleftrightarrow>
     year a < year b \<or> (year a = year b \<and>
       (month a < month b \<or> (month a = month b \<and> day a < day b)))"

definition date_sub_days :: "date \<Rightarrow> date \<Rightarrow> int" where
  \<comment> \<open>\<^verbatim>\<open>(a - b).days\<close>\<close>
  "date_sub_days a b = toordinal a - toordinal b"

definition date_add_days :: "date \<Rightarrow> int \<Rightarrow> error + date" where
  \<comment> \<open>\<^verbatim>\<open>d + timedelta(days=k)\<close>\<close>
  "date_add_days d k =
     (let n = toordinal d + k
      in if 0 < n \<and> n \<le> MAXORDINAL then Inr (ord2ymd n)
         else Inl (OverflowError ''date value out of range''))"

definition pad2 :: "int \<Rightarrow> string" where
  "pad2 i = [char_of (48 + nat i div 10 mod 10), char_of (48 + nat i mod 10)]"

definition pad4 :: "int \<Rightarrow> string" where
  "pad4 i = [char_of (48 + nat i div 1000 mod 10), char_of (48 + nat i div 100 mod 10),
             char_of (48 + nat i div 10 mod 10), char_of (48 + nat i mod 10)]"

definition strftime_dmY :: "date \<Rightarrow> string" where
  \<comment> \<open>\<^verbatim>\<open>d.strftime("%d.%m.%Y")\<close>, the year written with four digits as the library
      documents it. The C library behind \<^verbatim>\<open>strftime\<close> may write a year below 1000 without
      its leading zeros, so the definition is exact from the year 1000 on.\<close>
  "strftime_dmY d = pad2 (day d) @ ''.'' @ pad2 (month d) @ ''.'' @ pad4 (year d)"

section \<open>Parsing a date\<close>

text \<open>
  \<^verbatim>\<open>datetime.strptime(s, "%d.%m.%Y")\<close> compiles the format into the regular expression
  \<^verbatim>\<open>(?P<d>3[0-1]|[1-2]\d|0[1-9]|[1-9]| [1-9])\.(?P<m>1[0-2]|0[1-9]|[1-9])\.(?P<Y>\d\d\d\d)\<close>,
  matches it at the start of \<^verbatim>\<open>s\<close>, refuses data left over after the match, converts the
  three groups with \<^verbatim>\<open>int\<close> and builds the date, which validates it. A matcher
  returns every way to match in the order a backtracking engine tries them (the captured
  text with the rest of the input), and the first complete match is the engine's answer.
  Below 256 the class \<^verbatim>\<open>\d\<close> is \<^verbatim>\<open>0\<close> .. \<^verbatim>\<open>9\<close>. From 256 on it also holds of the
  other decimal digits of Unicode, which \<^verbatim>\<open>int\<close> converts as well; these characters are
  not in the type \<open>string\<close>, so the matchers below are the library's on the strings of
  code points below 256 and say nothing of the others.
\<close>

definition char_in :: "char \<Rightarrow> char \<Rightarrow> char \<Rightarrow> bool" where
  \<comment> \<open>the character class \<^verbatim>\<open>[lo-hi]\<close>\<close>
  "char_in lo hi c \<longleftrightarrow>
     (of_char lo :: nat) \<le> of_char c \<and> (of_char c :: nat) \<le> of_char hi"

definition rx1 :: "(char \<Rightarrow> bool) \<Rightarrow> string \<Rightarrow> (string \<times> string) list" where
  "rx1 p s = (case s of a # r \<Rightarrow> if p a then [([a], r)] else [] | _ \<Rightarrow> [])"

definition rx2 ::
  "(char \<Rightarrow> bool) \<Rightarrow> (char \<Rightarrow> bool) \<Rightarrow> string \<Rightarrow> (string \<times> string) list" where
  "rx2 p q s =
     (case s of a # b # r \<Rightarrow> if p a \<and> q b then [([a, b], r)] else [] | _ \<Rightarrow> [])"

definition re_d :: "string \<Rightarrow> (string \<times> string) list" where
  "re_d s =
     rx2 (\<lambda>c. c = CHR ''3'') (char_in CHR ''0'' CHR ''1'') s
     @ rx2 (char_in CHR ''1'' CHR ''2'') ascii_digit s
     @ rx2 (\<lambda>c. c = CHR ''0'') (char_in CHR ''1'' CHR ''9'') s
     @ rx1 (char_in CHR ''1'' CHR ''9'') s
     @ rx2 (\<lambda>c. c = CHR '' '') (char_in CHR ''1'' CHR ''9'') s"

definition re_m :: "string \<Rightarrow> (string \<times> string) list" where
  "re_m s =
     rx2 (\<lambda>c. c = CHR ''1'') (char_in CHR ''0'' CHR ''2'') s
     @ rx2 (\<lambda>c. c = CHR ''0'') (char_in CHR ''1'' CHR ''9'') s
     @ rx1 (char_in CHR ''1'' CHR ''9'') s"

definition re_Y :: "string \<Rightarrow> (string \<times> string) list" where
  "re_Y s =
     (case s of
        a # b # c # d # r \<Rightarrow>
          if ascii_digit a \<and> ascii_digit b \<and> ascii_digit c \<and> ascii_digit d
          then [([a, b, c, d], r)] else []
      | _ \<Rightarrow> [])"

definition re_dot :: "string \<Rightarrow> string list" where
  "re_dot s = (case s of a # r \<Rightarrow> if a = CHR ''.'' then [r] else [] | _ \<Rightarrow> [])"

definition re_dmY :: "string \<Rightarrow> (string \<times> string \<times> string \<times> string) list" where
  \<comment> \<open>all matches of the whole expression: day, month, year, unconsumed rest\<close>
  "re_dmY s =
     concat (map (\<lambda>(d, r1).
       concat (map (\<lambda>r2.
         concat (map (\<lambda>(m, r3).
           concat (map (\<lambda>r4.
             map (\<lambda>(y, r5). (d, m, y, r5)) (re_Y r4))
             (re_dot r3)))
           (re_m r2)))
         (re_dot r1)))
       (re_d s))"

definition int_group :: "string \<Rightarrow> int" where
  \<comment> \<open>\<^verbatim>\<open>int\<close> of a captured group: blanks around the digits are dropped\<close>
  "int_group g =
     foldl (\<lambda>a c. 10 * a + (int (of_char c) - 48)) 0 (filter (\<lambda>c. c \<noteq> CHR '' '') g)"

definition strptime_dmY :: "string \<Rightarrow> error + date" where
  \<comment> \<open>The library's message for data that does not match also quotes the data and the
      format, which the text here leaves out. \<^verbatim>\<open>Birthday\<close> replaces the text, and
      \<^verbatim>\<open>get_upcoming_birthdays\<close> meets it only for a birthday stored without
      \<^verbatim>\<open>Birthday\<close>, which no handler does.\<close>
  "strptime_dmY s =
     (case re_dmY s of
        [] \<Rightarrow> Inl (ValueError ''time data does not match format'')
      | (d, m, y, rest) # _ \<Rightarrow>
          if rest \<noteq> [] then Inl (ValueError (''unconverted data remains: '' @ rest))
          else new_date (int_group y) (int_group m) (int_group d))"

definition Birthday :: "string \<Rightarrow> error + string" where
  "Birthday v =
     (case strptime_dmY v of
        Inl (ValueError m) \<Rightarrow> Inl (ValueError ''Invalid date format. Use DD.MM.YYYY'')
      | Inl e \<Rightarrow> Inl e
      | Inr d \<Rightarrow> Inr v)"

section \<open>Contact records\<close>

text \<open>
  A \<^verbatim>\<open>Record\<close> object holds its name, the list of its phones and an optional birthday,
  each field by its stored string. Python mutates the object in place; a method of the
  model returns the record after the call. No object is shared: every \<^verbatim>\<open>Phone\<close> and
  every \<^verbatim>\<open>Record\<close> is built where it is stored.
\<close>

record Record =
  name :: string
  phones :: "string list"
  birthday :: "string option"

definition new_Record :: "string \<Rightarrow> error + Record" where
  \<comment> \<open>\<^verbatim>\<open>Record(name)\<close>\<close>
  "new_Record nm =
     (case Name nm of
        Inl e \<Rightarrow> Inl e
      | Inr v \<Rightarrow> Inr \<lparr>name = v, phones = [], birthday = None\<rparr>)"

definition add_phone :: "Record \<Rightarrow> string \<Rightarrow> error + Record" where
  "add_phone r phone =
     (case Phone phone of
        Inl e \<Rightarrow> Inl e
      | Inr v \<Rightarrow> Inr (r\<lparr>phones := phones r @ [v]\<rparr>))"

definition remove_phone :: "Record \<Rightarrow> string \<Rightarrow> Record" where
  "remove_phone r phone = r\<lparr>phones := filter (\<lambda>p. p \<noteq> phone) (phones r)\<rparr>"

fun edit_phones :: "string list \<Rightarrow> string \<Rightarrow> string \<Rightarrow> error + string list" where
  "edit_phones [] old_phone new_phone = Inl (ValueError ''Phone number not found'')"
| "edit_phones (p # ps) old_phone new_phone =
     (if p = old_phone
      then (case Phone new_phone of Inl e \<Rightarrow> Inl e | Inr v \<Rightarrow> Inr (v # ps))
      else (case edit_phones ps old_phone new_phone of
              Inl e \<Rightarrow> Inl e
            | Inr ps' \<Rightarrow> Inr (p # ps')))"

definition edit_phone :: "Record \<Rightarrow> string \<Rightarrow> string \<Rightarrow> error + Record" where
  "edit_phone r old_phone new_phone =
     (case edit_phones (phones r) old_phone new_phone of
        Inl e \<Rightarrow> Inl e
      | Inr ps \<Rightarrow> Inr (r\<lparr>phones := ps\<rparr>))"

definition find_phone :: "Record \<Rightarrow> string \<Rightarrow> string option" where
  "find_phone r phone = List.find (\<lambda>p. p = phone) (phones r)"

definition record_add_birthday :: "Record \<Rightarrow> string \<Rightarrow> error + Record" where
  \<comment> \<open>the method \<^verbatim>\<open>Record.add_birthday\<close>\<close>
  "record_add_birthday r b =
     (case Birthday b of
        Inl e \<Rightarrow> Inl e
      | Inr v \<Rightarrow> Inr (r\<lparr>birthday := Some v\<rparr>))"

fun join :: "string \<Rightarrow> string list \<Rightarrow> string" where
  "join sep [] = []"
| "join sep [x] = x"
| "join sep (x # y # ys) = x @ sep @ join sep (y # ys)"

definition str_Record :: "Record \<Rightarrow> string" where
  "str_Record r =
     ''Contact name: '' @ name r @ '', Phones: '' @ join ''; '' (phones r)
       @ (case birthday r of Some b \<Rightarrow> '', Birthday: '' @ b | None \<Rightarrow> [])"

section \<open>The address book\<close>

text \<open>
  \<^verbatim>\<open>AddressBook\<close> is a \<^verbatim>\<open>UserDict\<close>: its \<^verbatim>\<open>data\<close> is a dictionary that keeps its
  keys in insertion order. It is modelled as the list of its items; storing under a
  key that is present replaces the value where it stands, storing under a new key
  appends (\<open>AList.update\<close>), and a lookup is \<open>map_of\<close>.
\<close>

type_synonym AddressBook = "(string \<times> Record) list"

definition add_record :: "AddressBook \<Rightarrow> Record \<Rightarrow> AddressBook" where
  "add_record book r = AList.update (name r) r book"

definition find :: "AddressBook \<Rightarrow> string \<Rightarrow> Record option" where
  "find book nm = map_of book (lower nm)"

definition delete :: "AddressBook \<Rightarrow> string \<Rightarrow> AddressBook" where
  "delete book nm = (if nm \<in> fst ` set book then AList.delete nm book else book)"

definition congrats_entry :: "date \<Rightarrow> Record \<Rightarrow> error + (string \<times> string) option" where
  \<comment> \<open>one pass of the loop of \<^verbatim>\<open>get_upcoming_birthdays\<close>: the entry appended for the
      record, if any\<close>
  "congrats_entry today r =
     (case birthday r of
        None \<Rightarrow> Inr None
      | Some b \<Rightarrow>
          (case strptime_dmY b of
             Inl e \<Rightarrow> Inl e
           | Inr d \<Rightarrow>
               (case replace_year d (year today) of
                  Inl e \<Rightarrow> Inl e
                | Inr bday0 \<Rightarrow>
                    (case (if date_less bday0 today
                           then replace_year bday0 (year today + 1) else Inr bday0) of
                       Inl e \<Rightarrow> Inl e
                     | Inr bday \<Rightarrow>
                         if 0 \<le> date_sub_days bday today \<and> date_sub_days bday today \<le> 7
                         then
                           (case (if weekday bday \<ge> 5
                                  then date_add_days bday (7 - weekday bday)
                                  else Inr bday) of
                              Inl e \<Rightarrow> Inl e
                            | Inr congrats_day \<Rightarrow>
                                Inr (Some (name r, strftime_dmY congrats_day)))
                         else Inr None))))"

fun upcoming_loop ::
  "date \<Rightarrow> Record list \<Rightarrow> (string \<times> string) list \<Rightarrow> error + (string \<times> string) list"
where
  "upcoming_loop today [] upcoming_birthdays = Inr upcoming_birthdays"
| "upcoming_loop today (r # rs) upcoming_birthdays =
     (case congrats_entry today r of
        Inl e \<Rightarrow> Inl e
      | Inr None \<Rightarrow> upcoming_loop today rs upcoming_birthdays
      | Inr (Some x) \<Rightarrow> upcoming_loop today rs (upcoming_birthdays @ [x]))"

definition get_upcoming_birthdays ::
  "date \<Rightarrow> AddressBook \<Rightarrow> error + (string \<times> string) list" where
  \<comment> \<open>\<^verbatim>\<open>today\<close> is what \<^verbatim>\<open>datetime.today().date()\<close> returns at the call; an entry
      \<^verbatim>\<open>{"name": n, "birthday": b}\<close> is the pair \<open>(n, b)\<close>\<close>
  "get_upcoming_birthdays today book = upcoming_loop today (map snd book) []"

definition str_AddressBook :: "AddressBook \<Rightarrow> string" where
  \<comment> \<open>\<^verbatim>\<open>AddressBook.__str__\<close>\<close>
  "str_AddressBook book = join [CHR 0x0A] (map (\<lambda>(k, r). str_Record r) book)"

section \<open>Command handlers\<close>

text \<open>
  A handler takes the argument list and the book and returns its result with the book
  as the call leaves it: \<open>Inr\<close> the returned string, \<open>Inl\<close> an exception that leaves
  the handler. The book is returned on an exception too, since what the handler has
  stored before raising stays stored. \<^verbatim>\<open>input_error\<close> wraps a handler: it checks the
  argument count first and turns the four exception classes it names into strings.
\<close>

type_synonym handler = "string list \<Rightarrow> AddressBook \<Rightarrow> (error + string) \<times> AddressBook"

definition input_error :: "nat \<Rightarrow> string \<Rightarrow> handler \<Rightarrow> handler" where
  "input_error required_args error_message func args book =
     (case (if required_args > 0 \<and> length args < required_args
            then (Inl (ValueError error_message), book)
            else func args book) of
        (Inl (ValueError e), book') \<Rightarrow> (Inr e, book')
      | (Inl KeyError, book') \<Rightarrow> (Inr ''This contact doesn't exist.'', book')
      | (Inl IndexError, book') \<Rightarrow>
          (Inr ''Invalid input. Please provide the correct arguments.'', book')
      | (Inl TypeError, book') \<Rightarrow> (Inr ''Invalid argument type provided.'', book')
      | (Inl (OverflowError e), book') \<Rightarrow> (Inl (OverflowError e), book')
      | (Inr v, book') \<Rightarrow> (Inr v, book'))"

definition unpack_error :: "nat \<Rightarrow> nat \<Rightarrow> error" where
  \<comment> \<open>unpacking a list of \<open>got\<close> items into \<open>expected\<close> names, \<open>got < expected\<close>\<close>
  "unpack_error expected got =
     ValueError (''not enough values to unpack (expected '' @ str_nat expected
                 @ '', got '' @ str_nat got @ '')'')"

definition add_contact_func :: handler where
  "add_contact_func args book =
     (case take 2 args of
        [nm, phone] \<Rightarrow>
          (case find book nm of
             None \<Rightarrow>
               (case new_Record nm of
                  Inl e \<Rightarrow> (Inl e, book)
                | Inr r \<Rightarrow>
                    (let book' = add_record book r
                     in case add_phone r phone of
                          Inl e \<Rightarrow> (Inl e, book')
                        | Inr r' \<Rightarrow> (Inr ''Contact added.'', AList.update (name r) r' book')))
           | Some r \<Rightarrow>
               (case add_phone r phone of
                  Inl e \<Rightarrow> (Inl e, book)
                | Inr r' \<Rightarrow> (Inr ''Contact updated.'', AList.update (lower nm) r' book)))
      | xs \<Rightarrow> (Inl (unpack_error 2 (length xs)), book))"

definition add_contact :: handler where
  "add_contact = input_error 2 ''Write name and phone, please'' add_contact_func"

definition change_contact_func :: handler where
  "change_contact_func args book =
     (case take 3 args of
        [nm, old_phone, new_phone] \<Rightarrow>
          (case find book nm of
             Some r \<Rightarrow>
               (case edit_phone r old_phone new_phone of
                  Inl e \<Rightarrow> (Inl e, book)
                | Inr r' \<Rightarrow> (Inr ''Phone number updated.'', AList.update (lower nm) r' book))
           | None \<Rightarrow> (Inr ''Contact not found.'', book))
      | xs \<Rightarrow> (Inl (unpack_error 3 (length xs)), book))"

definition change_contact :: handler where
  "change_contact =
     input_error 3 ''Write name, old phone, and new phone, please'' change_contact_func"

definition show_phone_func :: handler where
  "show_phone_func args book =
     (case args of
        [] \<Rightarrow> (Inl IndexError, book)
      | nm # _ \<Rightarrow>
          (case find book nm of
             Some r \<Rightarrow> (Inr (join '', '' (phones r)), book)
           | None \<Rightarrow> (Inr ''Contact not found.'', book)))"

definition show_phone :: handler where
  "show_phone = input_error 1 ''Write name, please'' show_phone_func"

definition show_all_func :: handler where
  "show_all_func args book =
     (if book = [] then (Inr ''Address book is empty.'', book)
      else (Inr (join [CHR 0x0A] (map (\<lambda>(k, r). str_Record r) book)), book))"

definition show_all :: handler where
  "show_all =
     input_error 0 ''Invalid input. Please provide the correct arguments.'' show_all_func"

definition add_birthday_func :: handler where
  "add_birthday_func args book =
     (case take 2 args of
        [nm, b] \<Rightarrow>
          (case find book nm of
             Some r \<Rightarrow>
               (case record_add_birthday r b of
                  Inl e \<Rightarrow> (Inl e, book)
                | Inr r' \<Rightarrow> (Inr ''Birthday added.'', AList.update (lower nm) r' book))
           | None \<Rightarrow> (Inr ''Contact not found.'', book))
      | xs \<Rightarrow> (Inl (unpack_error 2 (length xs)), book))"

definition add_birthday :: handler where
  "add_birthday = input_error 2 ''Write name and birthday, please'' add_birthday_func"

definition show_birthday_func :: handler where
  "show_birthday_func args book =
     (case args of
        [] \<Rightarrow> (Inl IndexError, book)
      | nm # _ \<Rightarrow>
          (case find book nm of
             Some r \<Rightarrow>
               (case birthday r of
                  Some b \<Rightarrow> (Inr b, book)
                | None \<Rightarrow> (Inr ''No birthday found.'', book))
           | None \<Rightarrow> (Inr ''No birthday found.'', book)))"

definition show_birthday :: handler where
  "show_birthday = input_error 1 ''Write name, please'' show_birthday_func"

definition birthdays_func :: "date \<Rightarrow> handler" where
  "birthdays_func today args book =
     (case get_upcoming_birthdays today book of
        Inl e \<Rightarrow> (Inl e, book)
      | Inr upcoming \<Rightarrow>
          if upcoming \<noteq> []
          then (Inr (join [CHR 0x0A] (map (\<lambda>(n, b). n @ '' - '' @ b) upcoming)), book)
          else (Inr ''No upcoming birthdays.'', book))"

definition birthdays :: "date \<Rightarrow> handler" where
  "birthdays today =
     input_error 0 ''Invalid input. Please provide the correct arguments.''
       (birthdays_func today)"

section \<open>Notions used by the properties\<close>

definition valid_name :: "string \<Rightarrow> bool" where
  \<comment> \<open>a name: a string that \<^verbatim>\<open>Name\<close> accepts\<close>
  "valid_name nm \<longleftrightarrow> \<not> isl (Name nm)"

definition valid_phone :: "string \<Rightarrow> bool" where
  \<comment> \<open>a phone string that \<^verbatim>\<open>Phone\<close> accepts\<close>
  "valid_phone p \<longleftrightarrow> \<not> isl (Phone p)"

definition add_phones :: "string \<Rightarrow> string list \<Rightarrow> AddressBook \<Rightarrow> AddressBook" where
  \<comment> \<open>the book after one call \<^verbatim>\<open>add_contact([nm, p], book)\<close> for each phone of the list in
      turn\<close>
  "add_phones nm ps book = foldl (\<lambda>b p. snd (add_contact [nm, p] b)) book ps"

fun split_dot :: "string \<Rightarrow> string list" where
  \<comment> \<open>the fields of a string between its full stops, as \<^verbatim>\<open>s.split(".")\<close> gives them\<close>
  "split_dot [] = [[]]"
| "split_dot (c # cs) =
     (if c = CHR ''.'' then [] # split_dot cs
      else (case split_dot cs of g # gs \<Rightarrow> (c # g) # gs | [] \<Rightarrow> [[c]]))"

definition day_field :: "string \<Rightarrow> bool" where
  \<comment> \<open>one or two digits; a single digit may follow a blank\<close>
  "day_field g \<longleftrightarrow>
     (case g of
        [a] \<Rightarrow> ascii_digit a
      | [a, b] \<Rightarrow> (ascii_digit a \<or> a = CHR '' '') \<and> ascii_digit b
      | _ \<Rightarrow> False)"

definition month_field :: "string \<Rightarrow> bool" where
  \<comment> \<open>one or two digits\<close>
  "month_field g \<longleftrightarrow>
     (case g of
        [a] \<Rightarrow> ascii_digit a
      | [a, b] \<Rightarrow> ascii_digit a \<and> ascii_digit b
      | _ \<Rightarrow> False)"

definition year_field :: "string \<Rightarrow> bool" where
  \<comment> \<open>exactly four digits\<close>
  "year_field g \<longleftrightarrow> length g = 4 \<and> list_all ascii_digit g"

definition real_date :: "string \<Rightarrow> string \<Rightarrow> string \<Rightarrow> bool" where
  \<comment> \<open>the numbers written in the three fields are a date of the calendar\<close>
  "real_date dg mg yg \<longleftrightarrow>
     valid_date \<lparr>year = int_group yg, month = int_group mg, day = int_group dg\<rparr>"

definition strict_dmY :: "string \<Rightarrow> bool" where
  \<comment> \<open>the format \<^verbatim>\<open>DD.MM.YYYY\<close>: two digits, two digits, four digits, and a real date\<close>
  "strict_dmY s \<longleftrightarrow>
     (case split_dot s of
        [dg, mg, yg] \<Rightarrow>
          length dg = 2 \<and> list_all ascii_digit dg \<and> length mg = 2 \<and> list_all ascii_digit mg
            \<and> year_field yg \<and> real_date dg mg yg
      | _ \<Rightarrow> False)"

definition lenient_dmY :: "string \<Rightarrow> bool" where
  \<comment> \<open>day and month need no leading zero\<close>
  "lenient_dmY s \<longleftrightarrow>
     (case split_dot s of
        [dg, mg, yg] \<Rightarrow> day_field dg \<and> month_field mg \<and> year_field yg \<and> real_date dg mg yg
      | _ \<Rightarrow> False)"

definition occurrence :: "date \<Rightarrow> date \<Rightarrow> date" where
  \<comment> \<open>the next occurrence of a birthday: its day and month in the year of \<open>today\<close>, and in
      the year after when that date is strictly before \<open>today\<close>\<close>
  "occurrence today d =
     (if date_less (d\<lparr>year := year today\<rparr>) today then d\<lparr>year := year today + 1\<rparr>
      else d\<lparr>year := year today\<rparr>)"

definition in_window :: "date \<Rightarrow> date \<Rightarrow> bool" where
  \<comment> \<open>\<open>bday\<close> is at most seven days after \<open>today\<close>, and not before it\<close>
  "in_window today bday \<longleftrightarrow>
     0 \<le> toordinal bday - toordinal today \<and> toordinal bday - toordinal today \<le> 7"

definition congrats_day :: "date \<Rightarrow> date" where
  \<comment> \<open>a Saturday or Sunday moves on by \<open>7 - weekday\<close> days\<close>
  "congrats_day bday =
     (if 5 \<le> weekday bday then ord2ymd (toordinal bday + (7 - weekday bday)) else bday)"

definition replaceable :: "date \<Rightarrow> date \<Rightarrow> bool" where
  \<comment> \<open>the day and month of \<open>d\<close> exist in the year of \<open>today\<close>, and in the year after when
      the occurrence moves there\<close>
  "replaceable today d \<longleftrightarrow>
     valid_date (d\<lparr>year := year today\<rparr>)
     \<and> (date_less (d\<lparr>year := year today\<rparr>) today \<longrightarrow> valid_date (d\<lparr>year := year today + 1\<rparr>))"

definition expected_entry :: "date \<Rightarrow> Record \<Rightarrow> (string \<times> string) option" where
  \<comment> \<open>what the query is to emit for one record\<close>
  "expected_entry today r =
     (case birthday r of
        None \<Rightarrow> None
      | Some b \<Rightarrow>
          (case strptime_dmY b of
             Inl e \<Rightarrow> None
           | Inr d \<Rightarrow>
               if in_window today (occurrence today d)
               then Some (name r, strftime_dmY (congrats_day (occurrence today d)))
               else None))"

definition upcoming_expected :: "date \<Rightarrow> AddressBook \<Rightarrow> (string \<times> string) list" where
  "upcoming_expected today book = List.map_filter (expected_entry today) (map snd book)"

definition replacements_ok :: "date \<Rightarrow> AddressBook \<Rightarrow> bool" where
  \<comment> \<open>every stored birthday parses and is replaceable\<close>
  "replacements_ok today book \<longleftrightarrow>
     list_all (\<lambda>r. case birthday r of
                     None \<Rightarrow> True
                   | Some b \<Rightarrow> (case strptime_dmY b of
                                  Inl e \<Rightarrow> False
                                | Inr d \<Rightarrow> replaceable today d))
       (map snd book)"

definition birthdays_validated :: "AddressBook \<Rightarrow> bool" where
  \<comment> \<open>every stored birthday is a string that \<^verbatim>\<open>Birthday\<close> accepts, as in every book that
      the handlers build\<close>
  "birthdays_validated book \<longleftrightarrow>
     list_all (\<lambda>r. case birthday r of None \<Rightarrow> True | Some b \<Rightarrow> \<not> isl (Birthday b))
       (map snd book)"

definition leap_day_birthday :: "Record \<Rightarrow> bool" where
  \<comment> \<open>the stored birthday is a 29 February\<close>
  "leap_day_birthday r \<longleftrightarrow>
     (case birthday r of
        None \<Rightarrow> False
      | Some b \<Rightarrow> (case strptime_dmY b of
                     Inl e \<Rightarrow> False
                   | Inr d \<Rightarrow> month d = 2 \<and> day d = 29))"

section \<open>Properties of the validators\<close>

lemma lower_char_idem: "lower_char (lower_char c) = lower_char c"
proof -
  have "of_char (char_of (of_char c + 32 :: nat)) = (of_char c + 32 :: nat)"
    if "(of_char c :: nat) \<le> 222"
    using that by simp
  then show ?thesis
    by (auto simp: lower_char_def Let_def)
qed

lemma lower_idem: "lower (lower s) = lower s"
  by (simp add: lower_def lower_char_idem)

text \<open>
  C1, as stated: \<^verbatim>\<open>Phone\<close> accepts a string exactly when it has ten characters, all of
  them decimal digits. This fails: \<^verbatim>\<open>str.isdigit\<close> also holds of the superscript digits,
  so ten superscript twos (U+00B2) are accepted as a phone.
\<close>

theorem Phone_superscript_counterexample:
  "Phone (replicate 10 (CHR 0xB2)) = Inr (replicate 10 (CHR 0xB2))
   \<and> \<not> list_all ascii_digit (replicate 10 (CHR 0xB2))"
  by (simp add: Phone_def isdigit_def isdigit_char_def ascii_digit_def list_all_iff)

text \<open>
  C1, amended: \<^verbatim>\<open>Phone\<close> accepts a string exactly when it has ten characters, all of
  them digits in the sense of \<^verbatim>\<open>str.isdigit\<close> (the decimal digits and the superscript
  digits); in particular every string of ten decimal digits is accepted. An accepted
  string is stored unchanged, and a refused one raises \<^verbatim>\<open>ValueError\<close> with the message
  \<^verbatim>\<open>Phone number must be 10 digits\<close>.
\<close>

theorem Phone_valid_iff:
  "((\<exists>v. Phone s = Inr v) \<longleftrightarrow> length s = 10 \<and> list_all isdigit_char s)
   \<and> (length s = 10 \<and> list_all ascii_digit s \<longrightarrow> Phone s = Inr s)
   \<and> (length s = 10 \<and> list_all isdigit_char s \<longrightarrow> Phone s = Inr s)
   \<and> (\<not> (length s = 10 \<and> list_all isdigit_char s) \<longrightarrow>
        Phone s = Inl (ValueError ''Phone number must be 10 digits''))"
  by (auto simp: Phone_def isdigit_def isdigit_char_def list_all_iff)

theorem Phone_valid_iff_witness:
  "length ''0123456789'' = 10 \<and> list_all ascii_digit ''0123456789''
   \<and> Phone ''0123456789'' = Inr ''0123456789''
   \<and> \<not> (length ''12345'' = 10 \<and> list_all isdigit_char ''12345'')
   \<and> Phone ''12345'' = Inl (ValueError ''Phone number must be 10 digits'')"
  using Phone_valid_iff [of "''0123456789''"] Phone_valid_iff [of "''12345''"]
  by (simp add: ascii_digit_def)

subsection \<open>The birthday format\<close>

lemma char_code_eq: "c = d \<longleftrightarrow> (of_char c :: nat) = of_char d"
  by simp

lemma lit_codes:
  "c = CHR ''3'' \<longleftrightarrow> (of_char c :: nat) = 51"
  "c = CHR ''1'' \<longleftrightarrow> (of_char c :: nat) = 49"
  "c = CHR ''0'' \<longleftrightarrow> (of_char c :: nat) = 48"
  "c = CHR '' '' \<longleftrightarrow> (of_char c :: nat) = 32"
  "c = CHR ''.'' \<longleftrightarrow> (of_char c :: nat) = 46"
  by (simp_all add: char_code_eq [of c])

lemma re_d_mem:
  "(g, r) \<in> set (re_d s) \<longleftrightarrow>
     s = g @ r \<and> day_field g \<and> 1 \<le> int_group g \<and> int_group g \<le> 31"
proof (cases g)
  case Nil
  then show ?thesis
    by (auto simp: re_d_def rx1_def rx2_def day_field_def split: list.splits if_splits)
next
  case (Cons a g1)
  show ?thesis
  proof (cases g1)
    case Nil
    with Cons have g: "g = [a]" by simp
    show ?thesis unfolding g
      by (auto simp: re_d_def rx1_def rx2_def day_field_def int_group_def char_in_def
          ascii_digit_def lit_codes split: list.splits if_splits)
  next
    case (Cons b g2)
    show ?thesis
    proof (cases g2)
      case Nil
      with Cons \<open>g = a # g1\<close> have g: "g = [a, b]" by simp
      show ?thesis unfolding g
        by (auto simp: re_d_def rx1_def rx2_def day_field_def int_group_def char_in_def
            ascii_digit_def lit_codes split: list.splits if_splits)
    next
      case (Cons c g3)
      with \<open>g1 = b # g2\<close> \<open>g = a # g1\<close> show ?thesis
        by (auto simp: re_d_def rx1_def rx2_def day_field_def split: list.splits if_splits)
    qed
  qed
qed

lemma re_m_mem:
  "(g, r) \<in> set (re_m s) \<longleftrightarrow>
     s = g @ r \<and> month_field g \<and> 1 \<le> int_group g \<and> int_group g \<le> 12"
proof (cases g)
  case Nil
  then show ?thesis
    by (auto simp: re_m_def rx1_def rx2_def month_field_def split: list.splits if_splits)
next
  case (Cons a g1)
  show ?thesis
  proof (cases g1)
    case Nil
    with Cons have g: "g = [a]" by simp
    show ?thesis unfolding g
      by (auto simp: re_m_def rx1_def rx2_def month_field_def int_group_def char_in_def
          ascii_digit_def lit_codes split: list.splits if_splits)
  next
    case (Cons b g2)
    show ?thesis
    proof (cases g2)
      case Nil
      with Cons \<open>g = a # g1\<close> have g: "g = [a, b]" by simp
      show ?thesis unfolding g
        by (auto simp: re_m_def rx1_def rx2_def month_field_def int_group_def char_in_def
            ascii_digit_def lit_codes split: list.splits if_splits)
    next
      case (Cons c g3)
      with \<open>g1 = b # g2\<close> \<open>g = a # g1\<close> show ?thesis
        by (auto simp: re_m_def rx1_def rx2_def month_field_def split: list.splits if_splits)
    qed
  qed
qed

lemma re_Y_mem: "(g, r) \<in> set (re_Y s) \<longleftrightarrow> s = g @ r \<and> year_field g"
proof
  assume "(g, r) \<in> set (re_Y s)"
  then show "s = g @ r \<and> year_field g"
    by (auto simp: re_Y_def year_field_def split: list.splits if_splits)
next
  assume a: "s = g @ r \<and> year_field g"
  then obtain a b c d where "g = [a, b, c, d]"
    by (auto simp: year_field_def length_Suc_conv numeral_eq_Suc)
  with a show "(g, r) \<in> set (re_Y s)"
    by (simp add: re_Y_def year_field_def)
qed

lemma re_dot_mem: "r \<in> set (re_dot s) \<longleftrightarrow> s = CHR ''.'' # r"
  by (auto simp: re_dot_def split: list.splits if_splits)

lemma in_concat_map: "y \<in> set (f x) \<Longrightarrow> x \<in> set xs \<Longrightarrow> y \<in> set (concat (map f xs))"
  by auto

lemma in_map_pair: "(y, r) \<in> set xs \<Longrightarrow> (a, b, y, r) \<in> set (map (\<lambda>(y, r5). (a, b, y, r5)) xs)"
  by force

lemma re_dmY_mem:
  "(dg, mg, yg, r) \<in> set (re_dmY s) \<longleftrightarrow>
     s = dg @ ''.'' @ mg @ ''.'' @ yg @ r
     \<and> day_field dg \<and> 1 \<le> int_group dg \<and> int_group dg \<le> 31
     \<and> month_field mg \<and> 1 \<le> int_group mg \<and> int_group mg \<le> 12
     \<and> year_field yg"
  (is "?L \<longleftrightarrow> ?R")
proof
  assume ?L
  then show ?R
    unfolding re_dmY_def
    by (auto simp: re_d_mem re_m_mem re_Y_mem re_dot_mem)
next
  assume R: ?R
  let ?r1 = "''.'' @ mg @ ''.'' @ yg @ r"
  let ?r2 = "mg @ ''.'' @ yg @ r"
  let ?r3 = "''.'' @ yg @ r"
  let ?r4 = "yg @ r"
  from R have 1: "(dg, ?r1) \<in> set (re_d s)" by (simp add: re_d_mem)
  have 2: "?r2 \<in> set (re_dot ?r1)" by (simp add: re_dot_mem)
  from R have 3: "(mg, ?r3) \<in> set (re_m ?r2)" by (simp add: re_m_mem)
  have 4: "?r4 \<in> set (re_dot ?r3)" by (simp add: re_dot_mem)
  from R have 5: "(yg, r) \<in> set (re_Y ?r4)" by (simp add: re_Y_mem)
  from 5 have a: "(dg, mg, yg, r) \<in> set (map (\<lambda>(y, r5). (dg, mg, y, r5)) (re_Y ?r4))"
    by (rule in_map_pair)
  have b: "(dg, mg, yg, r)
      \<in> set (concat (map (\<lambda>r4. map (\<lambda>(y, r5). (dg, mg, y, r5)) (re_Y r4)) (re_dot ?r3)))"
    by (rule in_concat_map [OF _ 4]) (rule a)
  have c: "(dg, mg, yg, r)
      \<in> set (concat (map (\<lambda>(m, r3).
           concat (map (\<lambda>r4. map (\<lambda>(y, r5). (dg, m, y, r5)) (re_Y r4)) (re_dot r3)))
           (re_m ?r2)))"
    by (rule in_concat_map [OF _ 3]) (simp only: prod.case, rule b)
  have d: "(dg, mg, yg, r)
      \<in> set (concat (map (\<lambda>r2. concat (map (\<lambda>(m, r3).
           concat (map (\<lambda>r4. map (\<lambda>(y, r5). (dg, m, y, r5)) (re_Y r4)) (re_dot r3)))
           (re_m r2))) (re_dot ?r1)))"
    by (rule in_concat_map [OF _ 2]) (rule c)
  show ?L
    unfolding re_dmY_def
    by (rule in_concat_map [OF _ 1]) (simp only: prod.case, rule d)
qed

lemma day_field_no_dot: "day_field g \<Longrightarrow> CHR ''.'' \<notin> set g"
  by (auto simp: day_field_def ascii_digit_def split: list.splits)

lemma month_field_no_dot: "month_field g \<Longrightarrow> CHR ''.'' \<notin> set g"
  by (auto simp: month_field_def ascii_digit_def split: list.splits)

lemma year_field_no_dot: "year_field g \<Longrightarrow> CHR ''.'' \<notin> set g"
  by (auto simp: year_field_def ascii_digit_def list_all_iff)

lemma dot_split_unique:
  "a @ CHR ''.'' # r = a' @ CHR ''.'' # r' \<Longrightarrow> CHR ''.'' \<notin> set a \<Longrightarrow> CHR ''.'' \<notin> set a'
   \<Longrightarrow> a = a' \<and> r = r'"
proof (induction a arbitrary: a')
  case Nil
  then show ?case by (cases a') auto
next
  case (Cons x a)
  then show ?case by (cases a') auto
qed

lemma split_dot_no_dot: "CHR ''.'' \<notin> set g \<Longrightarrow> split_dot g = [g]"
  by (induction g) auto

lemma split_dot_append:
  "CHR ''.'' \<notin> set g \<Longrightarrow> split_dot (g @ CHR ''.'' # r) = g # split_dot r"
  by (induction g) auto

lemma split_dot_not_Nil: "split_dot s \<noteq> []"
  by (induction s) (auto split: list.splits)

lemma split_dot_Cons:
  "split_dot s = g # gs \<Longrightarrow>
   CHR ''.'' \<notin> set g
   \<and> (if gs = [] then s = g else \<exists>s'. s = g @ CHR ''.'' # s' \<and> split_dot s' = gs)"
proof (induction s arbitrary: g gs)
  case Nil
  then show ?case by simp
next
  case (Cons c s)
  show ?case
  proof (cases "c = CHR ''.''")
    case True
    with Cons.prems split_dot_not_Nil [of s] show ?thesis by auto
  next
    case False
    with Cons.prems split_dot_not_Nil [of s]
    obtain g' where sp: "split_dot s = g' # gs" and g: "g = c # g'"
      by (auto split: list.splits)
    from Cons.IH [OF sp] False g show ?thesis
      by (auto split: if_splits)
  qed
qed

lemma split_dot_three:
  "split_dot s = [dg, mg, yg] \<longleftrightarrow>
     s = dg @ ''.'' @ mg @ ''.'' @ yg
     \<and> CHR ''.'' \<notin> set dg \<and> CHR ''.'' \<notin> set mg \<and> CHR ''.'' \<notin> set yg"
proof
  assume a: "split_dot s = [dg, mg, yg]"
  from split_dot_Cons [OF a] obtain s1 where 1: "CHR ''.'' \<notin> set dg"
    "s = dg @ CHR ''.'' # s1" "split_dot s1 = [mg, yg]" by auto
  from split_dot_Cons [OF 1(3)] obtain s2 where 2: "CHR ''.'' \<notin> set mg"
    "s1 = mg @ CHR ''.'' # s2" "split_dot s2 = [yg]" by auto
  from split_dot_Cons [OF 2(3)] have 3: "CHR ''.'' \<notin> set yg" "s2 = yg" by auto
  from 1 2 3 show "s = dg @ ''.'' @ mg @ ''.'' @ yg
     \<and> CHR ''.'' \<notin> set dg \<and> CHR ''.'' \<notin> set mg \<and> CHR ''.'' \<notin> set yg" by simp
next
  assume "s = dg @ ''.'' @ mg @ ''.'' @ yg
     \<and> CHR ''.'' \<notin> set dg \<and> CHR ''.'' \<notin> set mg \<and> CHR ''.'' \<notin> set yg"
  then show "split_dot s = [dg, mg, yg]"
    by (simp add: split_dot_append split_dot_no_dot)
qed

lemma days_in_month_le: "days_in_month y m \<le> 31"
  by (simp add: days_in_month_def)

lemma new_date_valid:
  "new_date y m d = Inr dt \<longleftrightarrow> dt = \<lparr>year = y, month = m, day = d\<rparr> \<and> valid_date dt"
  by (auto simp: new_date_def valid_date_def)

lemma new_date_error: "new_date y m d = Inl e \<Longrightarrow> \<exists>msg. e = ValueError msg"
  by (auto simp: new_date_def split: if_splits)

lemma strptime_dmY_error: "strptime_dmY s = Inl e \<Longrightarrow> \<exists>msg. e = ValueError msg"
  by (auto simp: strptime_dmY_def split: list.splits if_splits dest: new_date_error)

lemma strptime_dmY_lenient:
  assumes "lenient_dmY s"
  shows "\<exists>dg mg yg. split_dot s = [dg, mg, yg] \<and>
           strptime_dmY s
             = Inr \<lparr>year = int_group yg, month = int_group mg, day = int_group dg\<rparr>"
proof -
  from assms obtain dg mg yg where sp: "split_dot s = [dg, mg, yg]"
    and f: "day_field dg" "month_field mg" "year_field yg" and rd: "real_date dg mg yg"
    by (auto simp: lenient_dmY_def split: list.splits)
  from sp have s: "s = dg @ ''.'' @ mg @ ''.'' @ yg @ []"
    by (simp add: split_dot_three)
  from rd have rng: "1 \<le> int_group dg" "int_group dg \<le> 31" "1 \<le> int_group mg"
    "int_group mg \<le> 12"
    using days_in_month_le [of "int_group yg" "int_group mg"]
    by (auto simp: real_date_def valid_date_def)
  from s f rng have mem: "(dg, mg, yg, []) \<in> set (re_dmY s)"
    by (subst re_dmY_mem) simp
  then obtain x xs where re: "re_dmY s = x # xs"
    by (cases "re_dmY s") auto
  obtain d' m' y' r' where x: "x = (d', m', y', r')"
    by (cases x) auto
  from re x have "(d', m', y', r') \<in> set (re_dmY s)" by simp
  then have x': "s = d' @ ''.'' @ m' @ ''.'' @ y' @ r'" "day_field d'" "month_field m'"
    "year_field y'"
    by (simp_all add: re_dmY_mem)
  from s x'(1) have "dg @ CHR ''.'' # (mg @ ''.'' @ yg) = d' @ CHR ''.'' # (m' @ ''.'' @ y' @ r')"
    by simp
  from dot_split_unique [OF this] f(1) x'(2)
  have days_before_year_values: "dg = d'" "mg @ CHR ''.'' # yg = m' @ CHR ''.'' # (y' @ r')"
    by (simp_all add: day_field_no_dot)
  from dot_split_unique [OF days_before_year_values(2)] f(2) x'(3)
  have e2: "mg = m'" "yg = y' @ r'"
    by (simp_all add: month_field_no_dot)
  from e2(2) f(3) x'(4) have e3: "r' = []" "yg = y'"
    by (auto simp: year_field_def)
  from re x days_before_year_values(1) e2(1) e3 rd have
    "strptime_dmY s = Inr \<lparr>year = int_group yg, month = int_group mg, day = int_group dg\<rparr>"
    by (simp add: strptime_dmY_def new_date_valid real_date_def)
  with sp show ?thesis by blast
qed

lemma strptime_dmY_Inr:
  assumes "strptime_dmY s = Inr dt"
  shows "lenient_dmY s \<and> valid_date dt"
proof -
  from assms obtain dg mg yg xs where re: "re_dmY s = (dg, mg, yg, []) # xs"
    and nd: "new_date (int_group yg) (int_group mg) (int_group dg) = Inr dt"
    by (auto simp: strptime_dmY_def split: list.splits if_splits)
  from re have "(dg, mg, yg, []) \<in> set (re_dmY s)" by simp
  then have x: "s = dg @ ''.'' @ mg @ ''.'' @ yg" "day_field dg" "month_field mg"
    "year_field yg"
    by (simp_all add: re_dmY_mem)
  then have "split_dot s = [dg, mg, yg]"
    by (subst split_dot_three) (simp add: day_field_no_dot month_field_no_dot year_field_no_dot)
  with x nd show ?thesis
    by (auto simp: lenient_dmY_def real_date_def new_date_valid)
qed

lemma strict_lenient: "strict_dmY s \<Longrightarrow> lenient_dmY s"
  by (auto simp: strict_dmY_def lenient_dmY_def day_field_def month_field_def
      length_Suc_conv numeral_eq_Suc split: list.splits)

text \<open>
  C2, as stated: \<^verbatim>\<open>Birthday\<close> accepts a string exactly when it has the form
  \<^verbatim>\<open>DD.MM.YYYY\<close> with two-digit day and month and denotes a real date. This fails:
  \<^verbatim>\<open>strptime\<close> also reads a day and a month written without the leading zero.
\<close>

theorem Birthday_unpadded_counterexample:
  "Birthday ''1.1.2020'' = Inr ''1.1.2020'' \<and> \<not> strict_dmY ''1.1.2020''"
  by code_simp

text \<open>
  C2, amended: among the strings whose characters are all code points below 256 (the
  strings of type \<open>string\<close>), \<^verbatim>\<open>Birthday\<close> accepts a string exactly when it consists of
  three fields separated by full stops, a day of one or two digits \<^verbatim>\<open>0\<close> .. \<^verbatim>\<open>9\<close> (a
  single digit may follow a blank), a month of one or two such digits and a year of
  exactly four such digits, that denote a real date of the calendar (with a year from 1
  on); in particular every string in the strict format \<^verbatim>\<open>DD.MM.YYYY\<close> that denotes a
  real date is accepted. An accepted string is stored unchanged, and a refused one raises
  \<^verbatim>\<open>ValueError\<close> with the message \<^verbatim>\<open>Invalid date format. Use DD.MM.YYYY\<close>. Nothing is
  stated of a string with a code point from 256 on, where \<^verbatim>\<open>\d\<close> matches further
  characters.
\<close>

theorem Birthday_valid_iff:
  "Birthday s = (if lenient_dmY s then Inr s
                 else Inl (ValueError ''Invalid date format. Use DD.MM.YYYY''))
   \<and> (strict_dmY s \<longrightarrow> Birthday s = Inr s)"
proof -
  have 1: "Birthday s = Inr s" if "lenient_dmY s"
    using strptime_dmY_lenient [OF that] by (auto simp: Birthday_def)
  have 2: "Birthday s = Inl (ValueError ''Invalid date format. Use DD.MM.YYYY'')"
    if "\<not> lenient_dmY s"
  proof (cases "strptime_dmY s")
    case (Inl e)
    with strptime_dmY_error [OF Inl] show ?thesis by (auto simp: Birthday_def)
  next
    case (Inr dt)
    with strptime_dmY_Inr [OF Inr] that show ?thesis by simp
  qed
  from 1 2 strict_lenient show ?thesis by auto
qed

theorem Birthday_valid_iff_witness:
  "strict_dmY ''29.02.2024'' \<and> Birthday ''29.02.2024'' = Inr ''29.02.2024''
   \<and> lenient_dmY ''3.11.2026'' \<and> Birthday ''3.11.2026'' = Inr ''3.11.2026''
   \<and> \<not> lenient_dmY ''29.02.2023''
   \<and> Birthday ''29.02.2023'' = Inl (ValueError ''Invalid date format. Use DD.MM.YYYY'')"
proof -
  have h1: "strict_dmY ''29.02.2024''" by code_simp
  have h2: "lenient_dmY ''3.11.2026''" by code_simp
  have h3: "\<not> lenient_dmY ''29.02.2023''" by code_simp
  have h4: "lenient_dmY ''29.02.2024''" by code_simp
  show ?thesis
    using h1 h2 h3 h4 Birthday_valid_iff [of "''29.02.2024''"] Birthday_valid_iff [of "''3.11.2026''"]
      Birthday_valid_iff [of "''29.02.2023''"]
    by simp
qed

section \<open>Properties of the address book\<close>

lemma find_add_record:
  "find (add_record book r) q = (if lower q = name r then Some r else find book q)"
  by (simp add: find_def add_record_def update_conv')

lemma find_update:
  "find (AList.update k r book) q = (if lower q = k then Some r else find book q)"
  by (simp add: find_def update_conv')

text \<open>
  C4, as stated: after \<^verbatim>\<open>add_record\<close> with a record named \<^verbatim>\<open>Bob\<close>, both \<^verbatim>\<open>find("bob")\<close>
  and \<^verbatim>\<open>find("Bob")\<close> return that record. This fails: the record is stored under the key
  \<^verbatim>\<open>Bob\<close>, and both calls look up the key \<^verbatim>\<open>bob\<close>.
\<close>

theorem add_record_mixed_case_counterexample:
  "find (add_record [] \<lparr>name = ''Bob'', phones = [], birthday = None\<rparr>) ''bob'' = None
   \<and> find (add_record [] \<lparr>name = ''Bob'', phones = [], birthday = None\<rparr>) ''Bob'' = None"
  by code_simp

text \<open>
  C4, amended: after \<^verbatim>\<open>add_record(r)\<close>, \<^verbatim>\<open>find(q)\<close> returns \<^verbatim>\<open>r\<close> exactly when the
  lowercased \<^verbatim>\<open>q\<close> is the name of \<^verbatim>\<open>r\<close>, and otherwise what it returned before. So a
  record whose name has an uppercase letter is returned under no spelling of its name
  (every \<^verbatim>\<open>find\<close> answers as before the call), and a record whose name is in lower case
  is returned under every spelling of its name.
\<close>

theorem find_after_add_record:
  "find (add_record book r) q = (if lower q = name r then Some r else find book q)
   \<and> (lower (name r) \<noteq> name r \<longrightarrow> find (add_record book r) q = find book q)
   \<and> (lower (name r) = name r \<and> lower q = name r \<longrightarrow> find (add_record book r) q = Some r)"
proof -
  have "lower q \<noteq> name r" if "lower (name r) \<noteq> name r"
    using that lower_idem [of q] by auto
  then show ?thesis
    by (simp add: find_add_record)
qed

theorem find_after_add_record_witness:
  "lower (name \<lparr>name = ''Bob'', phones = [], birthday = None\<rparr>)
     \<noteq> name \<lparr>name = ''Bob'', phones = [], birthday = None\<rparr>
   \<and> find (add_record [] \<lparr>name = ''Bob'', phones = [], birthday = None\<rparr>) ''bob''
       = find [] ''bob''
   \<and> lower (name \<lparr>name = ''bob'', phones = [], birthday = None\<rparr>)
       = name \<lparr>name = ''bob'', phones = [], birthday = None\<rparr>
   \<and> lower ''Bob'' = name \<lparr>name = ''bob'', phones = [], birthday = None\<rparr>
   \<and> find (add_record [] \<lparr>name = ''bob'', phones = [], birthday = None\<rparr>) ''Bob''
       = Some \<lparr>name = ''bob'', phones = [], birthday = None\<rparr>"
proof -
  have l: "lower ''Bob'' = ''bob''" "lower ''bob'' = ''bob''" by code_simp+
  show ?thesis
    using find_after_add_record [of "[]" "\<lparr>name = ''Bob'', phones = [], birthday = None\<rparr>" "''bob''"]
      find_after_add_record [of "[]" "\<lparr>name = ''bob'', phones = [], birthday = None\<rparr>" "''Bob''"]
    by (simp add: l)
qed

section \<open>Properties of the command handlers\<close>

lemma edit_phones_not_found:
  "old_phone \<notin> set ps \<Longrightarrow>
   edit_phones ps old_phone new_phone = Inl (ValueError ''Phone number not found'')"
  by (induction ps) auto

lemma valid_name_iff: "valid_name nm \<longleftrightarrow> nm \<noteq> []"
  by (simp add: valid_name_def Name_def)

lemma valid_phone_Phone: "valid_phone p \<Longrightarrow> Phone p = Inr p"
  by (auto simp: valid_phone_def Phone_def split: if_splits)

lemma add_contact_valid:
  assumes "valid_phone p" and "valid_name nm"
  shows "add_contact (nm # p # rest) book =
           (case find book nm of
              None \<Rightarrow> (Inr ''Contact added.'',
                        AList.update nm \<lparr>name = nm, phones = [p], birthday = None\<rparr> book)
            | Some r \<Rightarrow> (Inr ''Contact updated.'',
                         AList.update (lower nm) (r\<lparr>phones := phones r @ [p]\<rparr>) book))"
  using assms
  by (simp add: add_contact_def input_error_def add_contact_func_def new_Record_def Name_def
      add_phone_def valid_phone_Phone add_record_def valid_name_iff split: option.splits)

lemma show_phone_found:
  "find book nm = Some r \<Longrightarrow> show_phone (nm # rest) book = (Inr (join '', '' (phones r)), book)"
  by (simp add: show_phone_def input_error_def show_phone_func_def)

text \<open>
  C5, as stated: when the record exists and none of its phones is the old phone,
  \<^verbatim>\<open>change_contact\<close> returns \<^verbatim>\<open>Phone number not found.\<close> with a full stop. This fails:
  the string returned is the message of the \<^verbatim>\<open>ValueError\<close> raised by \<^verbatim>\<open>edit_phone\<close>,
  which has no full stop.
\<close>

theorem change_contact_counterexample:
  "find [(''bob'', \<lparr>name = ''bob'', phones = [''0123456789''], birthday = None\<rparr>)] ''bob''
     = Some \<lparr>name = ''bob'', phones = [''0123456789''], birthday = None\<rparr>
   \<and> ''1111111111'' \<notin> set [''0123456789'']
   \<and> fst (change_contact [''bob'', ''1111111111'', ''2222222222'']
          [(''bob'', \<lparr>name = ''bob'', phones = [''0123456789''], birthday = None\<rparr>)])
       = Inr ''Phone number not found''
   \<and> fst (change_contact [''bob'', ''1111111111'', ''2222222222'']
          [(''bob'', \<lparr>name = ''bob'', phones = [''0123456789''], birthday = None\<rparr>)])
       \<noteq> Inr ''Phone number not found.''"
  by code_simp

text \<open>
  C5, amended: called with a name, an old phone and a new phone, \<^verbatim>\<open>change_contact\<close>
  returns \<^verbatim>\<open>Contact not found.\<close> when \<^verbatim>\<open>find\<close> has no record for the name, and
  \<^verbatim>\<open>Phone number not found\<close> (no full stop) when the record exists and none of its
  phones is the old phone; in both cases the book is unchanged.
\<close>

theorem change_contact_failures:
  "(find book nm = None \<longrightarrow>
      change_contact (nm # old_phone # new_phone # rest) book
        = (Inr ''Contact not found.'', book))
   \<and> (find book nm = Some r \<and> old_phone \<notin> set (phones r) \<longrightarrow>
      change_contact (nm # old_phone # new_phone # rest) book
        = (Inr ''Phone number not found'', book))"
  by (simp add: change_contact_def input_error_def change_contact_func_def edit_phone_def
      edit_phones_not_found)

theorem change_contact_failures_witness:
  "find [] ''bob'' = None
   \<and> change_contact [''bob'', ''1111111111'', ''2222222222''] []
       = (Inr ''Contact not found.'', [])
   \<and> find [(''bob'', \<lparr>name = ''bob'', phones = [''0123456789''], birthday = None\<rparr>)] ''bob''
       = Some \<lparr>name = ''bob'', phones = [''0123456789''], birthday = None\<rparr>
   \<and> ''1111111111'' \<notin> set (phones \<lparr>name = ''bob'', phones = [''0123456789''], birthday = None\<rparr>)
   \<and> change_contact [''bob'', ''1111111111'', ''2222222222'']
         [(''bob'', \<lparr>name = ''bob'', phones = [''0123456789''], birthday = None\<rparr>)]
       = (Inr ''Phone number not found'',
          [(''bob'', \<lparr>name = ''bob'', phones = [''0123456789''], birthday = None\<rparr>)])"
proof -
  have l: "lower ''bob'' = ''bob''" by code_simp
  show ?thesis
    using change_contact_failures [where book = "[]" and nm = "''bob''"
        and old_phone = "''1111111111''" and new_phone = "''2222222222''" and rest = "[]"]
      change_contact_failures [where
        book = "[(''bob'', \<lparr>name = ''bob'', phones = [''0123456789''], birthday = None\<rparr>)]"
        and nm = "''bob''" and old_phone = "''1111111111''" and new_phone = "''2222222222''"
        and rest = "[]" and r = "\<lparr>name = ''bob'', phones = [''0123456789''], birthday = None\<rparr>"]
    by (simp add: find_def l)
qed

text \<open>
  C6, as stated: for every name, two \<^verbatim>\<open>add_contact\<close> calls with distinct valid phones
  answer \<^verbatim>\<open>Contact updated.\<close> the second time and leave both phones in the record. This
  fails for a name with an uppercase letter: the second call does not find the record
  stored by the first, answers \<^verbatim>\<open>Contact added.\<close> and replaces the record by a new one
  that holds the second phone only.
\<close>

theorem add_contact_twice_counterexample:
  "valid_phone ''0123456789'' \<and> valid_phone ''1111111111'' \<and> ''0123456789'' \<noteq> ''1111111111''
   \<and> add_contact [''Bob'', ''1111111111''] (snd (add_contact [''Bob'', ''0123456789''] []))
       = (Inr ''Contact added.'',
          [(''Bob'', \<lparr>name = ''Bob'', phones = [''1111111111''], birthday = None\<rparr>)])"
  by code_simp

text \<open>
  C6, amended: for every name in lower case (the command loop lowercases every
  argument) and every pair of distinct valid phones, from any book, the second of the two
  \<^verbatim>\<open>add_contact\<close> calls returns \<^verbatim>\<open>Contact updated.\<close>, and afterwards \<^verbatim>\<open>find\<close> returns
  for the name a record that holds both phones.
\<close>

theorem add_contact_twice:
  assumes "valid_name nm" and "lower nm = nm"
    and "valid_phone p1" and "valid_phone p2" and "p1 \<noteq> p2"
  shows "fst (add_contact (nm # p2 # rest2) (snd (add_contact (nm # p1 # rest1) book)))
           = Inr ''Contact updated.''
         \<and> (\<exists>r. find (snd (add_contact (nm # p2 # rest2)
                        (snd (add_contact (nm # p1 # rest1) book)))) nm = Some r
                \<and> p1 \<in> set (phones r) \<and> p2 \<in> set (phones r))"
  using assms(1-4)
  by (cases "find book nm") (simp_all add: add_contact_valid find_update)

theorem add_contact_twice_witness:
  "valid_name ''bob'' \<and> lower ''bob'' = ''bob'' \<and> valid_phone ''0123456789''
   \<and> valid_phone ''1111111111'' \<and> ''0123456789'' \<noteq> ''1111111111''
   \<and> fst (add_contact [''bob'', ''1111111111''] (snd (add_contact [''bob'', ''0123456789''] [])))
       = Inr ''Contact updated.''
   \<and> (\<exists>r. find (snd (add_contact [''bob'', ''1111111111'']
                  (snd (add_contact [''bob'', ''0123456789''] [])))) ''bob'' = Some r
          \<and> ''0123456789'' \<in> set (phones r) \<and> ''1111111111'' \<in> set (phones r))"
proof -
  have h1: "valid_name ''bob''" by code_simp
  have h2: "lower ''bob'' = ''bob''" by code_simp
  have h3: "valid_phone ''0123456789''" by code_simp
  have h4: "valid_phone ''1111111111''" by code_simp
  have h5: "''0123456789'' \<noteq> ''1111111111''" by simp
  show ?thesis
    using h1 h2 h3 h4 h5 add_contact_twice [OF h1 h2 h3 h4 h5, of "[]" "[]" "[]"]
    by blast
qed

lemma add_phones_found:
  assumes "valid_name nm" and "lower nm = nm" and "list_all valid_phone ps"
    and "find book nm = Some r"
  shows "\<exists>r'. find (add_phones nm ps book) nm = Some r' \<and> phones r' = phones r @ ps"
  using assms(3,4)
proof (induction ps arbitrary: book r)
  case Nil
  then show ?case by (simp add: add_phones_def)
next
  case (Cons p ps)
  let ?r = "r\<lparr>phones := phones r @ [p]\<rparr>"
  let ?b = "snd (add_contact [nm, p] book)"
  from Cons.prems assms(1,2) have "find ?b nm = Some ?r"
    by (simp add: add_contact_valid find_update)
  moreover from Cons.prems have "list_all valid_phone ps" by simp
  ultimately obtain r' where "find (add_phones nm ps ?b) nm = Some r'"
    and "phones r' = phones ?r @ ps"
    using Cons.IH by blast
  then show ?case by (simp add: add_phones_def)
qed

lemma add_phones_fresh:
  assumes "valid_name nm" and "lower nm = nm" and "list_all valid_phone ps" and "ps \<noteq> []"
    and "find book nm = None"
  shows "\<exists>r'. find (add_phones nm ps book) nm = Some r' \<and> phones r' = ps"
proof (cases ps)
  case Nil
  with assms(4) show ?thesis by simp
next
  case (Cons p qs)
  let ?r = "\<lparr>name = nm, phones = [p], birthday = None\<rparr>"
  let ?b = "snd (add_contact [nm, p] book)"
  from assms Cons have "find ?b nm = Some ?r"
    by (simp add: add_contact_valid find_update)
  moreover from assms(3) Cons have "list_all valid_phone qs" by simp
  ultimately obtain r' where "find (add_phones nm qs ?b) nm = Some r'"
    and "phones r' = phones ?r @ qs"
    using add_phones_found [OF assms(1,2)] by blast
  with Cons show ?thesis by (simp add: add_phones_def)
qed

text \<open>
  C7, as stated: for every name, after adding valid phones with \<^verbatim>\<open>add_contact\<close>,
  \<^verbatim>\<open>show_phone\<close> returns these phones. This fails for a name with an uppercase letter:
  \<^verbatim>\<open>show_phone\<close> answers \<^verbatim>\<open>Contact not found.\<close>
\<close>

theorem show_phone_round_trip_counterexample:
  "valid_phone ''0123456789''
   \<and> fst (show_phone [''Bob''] (add_phones ''Bob'' [''0123456789''] []))
       = Inr ''Contact not found.''
   \<and> Inr ''Contact not found.'' \<noteq> (Inr (join '', '' [''0123456789'']) :: error + string)"
  by code_simp

text \<open>
  C7, amended: for every name in lower case and every non-empty sequence of
  valid phones added with \<^verbatim>\<open>add_contact\<close> under that name, \<^verbatim>\<open>show_phone\<close> returns these
  phones in the order of addition, joined by a comma and a blank, when the book had no
  record for the name before; when it had one, its phones come first.
\<close>

theorem show_phone_round_trip:
  assumes "valid_name nm" and "lower nm = nm" and "list_all valid_phone ps" and "ps \<noteq> []"
  shows "(find book nm = None \<longrightarrow>
            fst (show_phone [nm] (add_phones nm ps book)) = Inr (join '', '' ps))
         \<and> (\<forall>r. find book nm = Some r \<longrightarrow>
            fst (show_phone [nm] (add_phones nm ps book)) = Inr (join '', '' (phones r @ ps)))"
proof (intro conjI impI allI)
  assume "find book nm = None"
  then obtain r' where "find (add_phones nm ps book) nm = Some r'" and "phones r' = ps"
    using add_phones_fresh [OF assms] by blast
  then show "fst (show_phone [nm] (add_phones nm ps book)) = Inr (join '', '' ps)"
    by (simp add: show_phone_found)
next
  fix r assume "find book nm = Some r"
  then obtain r' where "find (add_phones nm ps book) nm = Some r'"
    and "phones r' = phones r @ ps"
    using add_phones_found [OF assms(1-3)] by blast
  then show "fst (show_phone [nm] (add_phones nm ps book)) = Inr (join '', '' (phones r @ ps))"
    by (simp add: show_phone_found)
qed

theorem show_phone_round_trip_witness:
  "valid_name ''bob'' \<and> lower ''bob'' = ''bob''
   \<and> list_all valid_phone [''0123456789'', ''1111111111'']
   \<and> [''0123456789'', ''1111111111''] \<noteq> []
   \<and> find [] ''bob'' = None
   \<and> fst (show_phone [''bob''] (add_phones ''bob'' [''0123456789'', ''1111111111''] []))
       = Inr ''0123456789, 1111111111''
   \<and> find [(''bob'', \<lparr>name = ''bob'', phones = [''2222222222''], birthday = None\<rparr>)] ''bob''
       = Some \<lparr>name = ''bob'', phones = [''2222222222''], birthday = None\<rparr>
   \<and> fst (show_phone [''bob''] (add_phones ''bob'' [''0123456789'', ''1111111111'']
            [(''bob'', \<lparr>name = ''bob'', phones = [''2222222222''], birthday = None\<rparr>)]))
       = Inr ''2222222222, 0123456789, 1111111111''"
proof -
  have h1: "valid_name ''bob''" by code_simp
  have h2: "lower ''bob'' = ''bob''" by code_simp
  have h3: "list_all valid_phone [''0123456789'', ''1111111111'']" by code_simp
  have h4: "[''0123456789'', ''1111111111''] \<noteq> []" by simp
  have h5: "find [] ''bob'' = None" by (simp add: find_def)
  have h6: "find [(''bob'', \<lparr>name = ''bob'', phones = [''2222222222''], birthday = None\<rparr>)] ''bob''
       = Some \<lparr>name = ''bob'', phones = [''2222222222''], birthday = None\<rparr>"
    by (simp add: find_def h2)
  show ?thesis
    using h1 h2 h3 h4 h5 h6 show_phone_round_trip [OF h1 h2 h3 h4, of "[]"]
      show_phone_round_trip [OF h1 h2 h3 h4,
        of "[(''bob'', \<lparr>name = ''bob'', phones = [''2222222222''], birthday = None\<rparr>)]"]
    by simp
qed

text \<open>
  C8: every handler declared with a positive minimum argument count (\<^verbatim>\<open>add_contact\<close> 2,
  \<^verbatim>\<open>change_contact\<close> 3, \<^verbatim>\<open>show_phone\<close> 1, \<^verbatim>\<open>add_birthday\<close> 2, \<^verbatim>\<open>show_birthday\<close> 1),
  called with fewer arguments, returns its usage message and leaves the book unchanged.
\<close>

theorem too_few_arguments:
  "(length args < 2 \<longrightarrow>
      add_contact args book = (Inr ''Write name and phone, please'', book))
   \<and> (length args < 3 \<longrightarrow>
      change_contact args book
        = (Inr ''Write name, old phone, and new phone, please'', book))
   \<and> (length args < 1 \<longrightarrow> show_phone args book = (Inr ''Write name, please'', book))
   \<and> (length args < 2 \<longrightarrow>
      add_birthday args book = (Inr ''Write name and birthday, please'', book))
   \<and> (length args < 1 \<longrightarrow> show_birthday args book = (Inr ''Write name, please'', book))"
  by (simp add: add_contact_def change_contact_def show_phone_def add_birthday_def
      show_birthday_def input_error_def)

theorem too_few_arguments_witness:
  "length [''bob''] < 2
   \<and> add_contact [''bob''] [] = (Inr ''Write name and phone, please'', [])
   \<and> length [''bob'', ''0123456789''] < 3
   \<and> change_contact [''bob'', ''0123456789''] []
       = (Inr ''Write name, old phone, and new phone, please'', [])
   \<and> length ([] :: string list) < 1
   \<and> show_phone [] [] = (Inr ''Write name, please'', [])
   \<and> add_birthday [''bob''] [] = (Inr ''Write name and birthday, please'', [])
   \<and> show_birthday [] [] = (Inr ''Write name, please'', [])"
  using too_few_arguments [of "[''bob'']" "[]"]
    too_few_arguments [of "[''bob'', ''0123456789'']" "[]"]
    too_few_arguments [of "[]" "[]"]
  by simp

text \<open>
  C9: when \<^verbatim>\<open>find\<close> has no record for a name and the phone is invalid,
  \<^verbatim>\<open>add_contact\<close> returns \<^verbatim>\<open>Phone number must be 10 digits\<close> and nevertheless leaves in
  the book a new record for that name with no phone: the failed command changes the
  state.
\<close>

theorem add_contact_not_atomic:
  assumes "find book nm = None" and "valid_name nm" and "\<not> valid_phone phone"
  shows "add_contact (nm # phone # rest) book
           = (Inr ''Phone number must be 10 digits'',
              add_record book \<lparr>name = nm, phones = [], birthday = None\<rparr>)
         \<and> map_of (snd (add_contact (nm # phone # rest) book)) nm
             = Some \<lparr>name = nm, phones = [], birthday = None\<rparr>"
proof -
  from assms(3) have p: "Phone phone = Inl (ValueError ''Phone number must be 10 digits'')"
    by (auto simp: valid_phone_def Phone_def)
  show ?thesis
    using assms(1,2) p
    by (simp add: add_contact_def input_error_def add_contact_func_def new_Record_def
        Name_def add_phone_def add_record_def update_conv' valid_name_iff)
qed

theorem add_contact_not_atomic_witness:
  "find [] ''bob'' = None \<and> valid_name ''bob'' \<and> \<not> valid_phone ''12345''
   \<and> add_contact [''bob'', ''12345''] []
       = (Inr ''Phone number must be 10 digits'',
          [(''bob'', \<lparr>name = ''bob'', phones = [], birthday = None\<rparr>)])"
proof -
  have h1: "find [] ''bob'' = None" by (simp add: find_def)
  have h2: "valid_name ''bob''" by code_simp
  have h3: "\<not> valid_phone ''12345''" by (simp add: valid_phone_def Phone_def)
  show ?thesis
    using h1 h2 h3 add_contact_not_atomic [OF h1 h2 h3, of "[]"]
    by (simp add: add_record_def)
qed

section \<open>Properties of the calendar\<close>

lemma div100_diff: "a \<le> b \<Longrightarrow> b div 100 - a div 100 \<le> b - (a::int)"
proof -
  assume ab: "a \<le> b"
  define qa ra qb rb where "qa = a div 100" and "ra = a mod 100"
    and "qb = b div 100" and "rb = b mod 100"
  have "a = 100 * qa + ra" "0 \<le> ra" "ra < 100" "b = 100 * qb + rb" "0 \<le> rb" "rb < 100"
    by (simp_all add: qa_def ra_def qb_def rb_def)
  with ab have "qb - qa \<le> b - a" by linarith
  then show ?thesis by (simp add: qa_def qb_def)
qed

lemma days_before_year_mono: "a \<le> b \<Longrightarrow> days_before_year a \<le> days_before_year b"
proof -
  assume ab: "a \<le> b"
  define a' b' where "a' = a - 1" and "b' = b - 1"
  define a4 a100 a400 b4 b100 b400 where "a4 = a' div 4" and "a100 = a' div 100"
    and "a400 = a' div 400" and "b4 = b' div 4" and "b100 = b' div 100"
    and "b400 = b' div 400"
  from ab have ab': "a' \<le> b'" by (simp add: a'_def b'_def)
  have 1: "a4 \<le> b4" using ab' by (simp add: a4_def b4_def zdiv_mono1)
  have 2: "a400 \<le> b400" using ab' by (simp add: a400_def b400_def zdiv_mono1)
  have 3: "b100 - a100 \<le> b' - a'"
    unfolding a100_def b100_def using ab' by (rule div100_diff)
  from 1 2 3 ab' have "365 * a' + a4 - a100 + a400 \<le> 365 * b' + b4 - b100 + b400"
    by linarith
  then show ?thesis
    by (simp add: days_before_year_def a4_def a100_def a400_def b4_def b100_def b400_def
        a'_def b'_def mult.commute)
qed

lemma day_of_year_bounds:
  "1 \<le> m \<Longrightarrow> m \<le> 12 \<Longrightarrow> 1 \<le> d \<Longrightarrow> d \<le> days_in_month y m \<Longrightarrow>
   1 \<le> days_before_month y m + d
   \<and> days_before_month y m + d \<le> 365 + (if is_leap y then 1 else 0)"
proof -
  assume a: "1 \<le> m" "m \<le> 12" "1 \<le> d" "d \<le> days_in_month y m"
  from a(1,2) have "m = 1 \<or> m = 2 \<or> m = 3 \<or> m = 4 \<or> m = 5 \<or> m = 6 \<or> m = 7
    \<or> m = 8 \<or> m = 9 \<or> m = 10 \<or> m = 11 \<or> m = 12" by presburger
  then show ?thesis
    using a(3,4)
    by (elim disjE) (auto simp: days_before_month_def days_in_month_def split: if_splits)
qed
lemma days_before_year_values:
  "days_before_year 9999 = 3651694" "days_before_year 9996 = 3650598" "days_before_year 1 = 0"
  by (simp_all add: days_before_year_def)
lemma leap_le: "is_leap y \<Longrightarrow> y \<le> 9999 \<Longrightarrow> y \<le> 9996"
  unfolding is_leap_def by presburger

lemma toordinal_bounds:
  assumes "valid_date d"
  shows "1 \<le> toordinal d \<and> toordinal d \<le> MAXORDINAL"
proof -
  from assms have y: "1 \<le> year d" "year d \<le> 9999"
    and doy: "1 \<le> days_before_month (year d) (month d) + day d"
      "days_before_month (year d) (month d) + day d
         \<le> 365 + (if is_leap (year d) then 1 else 0)"
    using day_of_year_bounds [of "month d" "day d" "year d"]
    by (simp_all add: valid_date_def)
  from days_before_year_mono [OF y(1)] have lo: "0 \<le> days_before_year (year d)"
    by (simp add: days_before_year_values)
  show ?thesis
  proof (cases "is_leap (year d)")
    case True
    from leap_le [OF True y(2)] have "days_before_year (year d) \<le> 3650598"
      using days_before_year_mono [of "year d" 9996] by (simp add: days_before_year_values)
    with True lo doy show ?thesis
      by (simp add: toordinal_def ymd2ord_def MAXORDINAL_def)
  next
    case False
    from y(2) have "days_before_year (year d) \<le> 3651694"
      using days_before_year_mono [of "year d" 9999] by (simp add: days_before_year_values)
    with False lo doy show ?thesis
      by (simp add: toordinal_def ymd2ord_def MAXORDINAL_def)
  qed
qed

lemma weekend_shift_in_range:
  assumes "valid_date d" and "5 \<le> weekday d"
  shows "date_add_days d (7 - weekday d) = Inr (ord2ymd (toordinal d + (7 - weekday d)))"
proof -
  define t where "t = toordinal d"
  from toordinal_bounds [OF assms(1)] have b: "1 \<le> t" "t \<le> 3652059"
    by (simp_all add: MAXORDINAL_def t_def)
  from assms(2) have w: "5 \<le> (t + 6) mod 7" by (simp add: weekday_def t_def)
  have w7: "(t + 6) mod 7 < 7" by simp
  from b w have "t + (7 - (t + 6) mod 7) \<le> 3652059" by presburger
  with b w7 show ?thesis
    by (simp add: date_add_days_def Let_def weekday_def MAXORDINAL_def t_def)
qed

subsection \<open>The date of an ordinal\<close>

text \<open>
  \<open>ord2ymd\<close> inverts \<open>toordinal\<close>: the date it computes for an ordinal has that ordinal
  and is a date of the calendar. So the day that \<open>congrats_day\<close> gives for a Saturday or
  Sunday is the Monday that follows, one or two days later.
\<close>

lemma year_parts:
  fixes n :: int
  assumes "0 \<le> n"
    and a: "a = n div 146097" and r1: "r1 = n mod 146097"
    and b: "b = r1 div 36524" and r2: "r2 = r1 mod 36524"
    and c: "c = r2 div 1461" and r3: "r3 = r2 mod 1461"
    and e: "e = r3 div 365" and r4: "r4 = r3 mod 365"
  shows "n = 146097 * a + 36524 * b + 1461 * c + 365 * e + r4"
    and "0 \<le> b" and "b \<le> 4" and "0 \<le> c" and "c \<le> 24"
    and "0 \<le> e" and "e \<le> 4" and "0 \<le> r4" and "r4 < 365"
    and "b = 4 \<Longrightarrow> c = 0 \<and> e = 0 \<and> r4 = 0"
    and "e = 4 \<Longrightarrow> r4 = 0 \<and> c \<le> 23"
proof -
  have 1: "n = 146097 * a + r1" "0 \<le> r1" "r1 < 146097"
    by (simp_all add: a r1)
  have 2: "r1 = 36524 * b + r2" "0 \<le> r2" "r2 < 36524"
    by (simp_all add: b r2)
  have 3: "r2 = 1461 * c + r3" "0 \<le> r3" "r3 < 1461"
    by (simp_all add: c r3)
  have 4: "r3 = 365 * e + r4" "0 \<le> r4" "r4 < 365"
    by (simp_all add: e r4)
  from 1 2 3 4 show "n = 146097 * a + 36524 * b + 1461 * c + 365 * e + r4" by linarith
  from 2 1 show "0 \<le> b" by linarith
  from 2 1 show "b \<le> 4" by linarith
  from 3 2 show c0: "0 \<le> c" by linarith
  from 3 2 show c24: "c \<le> 24" by linarith
  from 4 3 show e0: "0 \<le> e" by linarith
  from 4 3 show "e \<le> 4" by linarith
  from 4 show "0 \<le> r4" "r4 < 365" by simp_all
  show "c = 0 \<and> e = 0 \<and> r4 = 0" if "b = 4"
  proof -
    from that 1 2 have "r2 = 0" by linarith
    with 3 4 c0 e0 show ?thesis by linarith
  qed
  show "r4 = 0 \<and> c \<le> 23" if "e = 4"
  proof -
    from that 3 4 have "r4 = 0" "r3 = 1460" by linarith+
    with 3 2 c24 show ?thesis by linarith
  qed
qed

lemma days_before_year_closed:
  fixes a b c e :: int
  assumes "0 \<le> b" "b \<le> 3" "0 \<le> c" "c \<le> 24" "0 \<le> e" "e \<le> 3"
  shows "days_before_year (400 * a + 100 * b + 4 * c + e + 1)
           = 146097 * a + 36524 * b + 1461 * c + 365 * e"
proof -
  let ?y = "400 * a + 100 * b + 4 * c + e"
  have d4: "?y div 4 = 100 * a + 25 * b + c"
    using assms by (intro int_div_pos_eq [where r = e]) simp_all
  have d100: "?y div 100 = 4 * a + b"
    using assms by (intro int_div_pos_eq [where r = "4 * c + e"]) simp_all
  have d400: "?y div 400 = a"
    using assms by (intro int_div_pos_eq [where r = "100 * b + 4 * c + e"]) simp_all
  show ?thesis
    by (simp add: days_before_year_def d4 d100 d400)
qed

lemma is_leap_closed:
  fixes a b c e :: int
  assumes "0 \<le> b" "b \<le> 3" "0 \<le> c" "c \<le> 24" "0 \<le> e" "e \<le> 3"
  shows "is_leap (400 * a + 100 * b + 4 * c + e + 1) \<longleftrightarrow> e = 3 \<and> (c \<noteq> 24 \<or> b = 3)"
proof -
  let ?y = "400 * a + 100 * b + 4 * c + e + 1"
  have m4: "?y mod 4 = (if e = 3 then 0 else e + 1)"
  proof (cases "e = 3")
    case True
    then have "?y = 4 * (100 * a + 25 * b + c + 1) + 0" by simp
    then have "?y mod 4 = 0" by (intro int_mod_pos_eq [where q = "100 * a + 25 * b + c + 1"]) simp_all
    with True show ?thesis by simp
  next
    case False
    with assms have "?y mod 4 = e + 1"
      by (intro int_mod_pos_eq [where q = "100 * a + 25 * b + c"]) simp_all
    with False show ?thesis by simp
  qed
  have m100: "?y mod 100 = (if c = 24 \<and> e = 3 then 0 else 4 * c + e + 1)"
  proof (cases "c = 24 \<and> e = 3")
    case True
    then have "?y mod 100 = 0" by (intro int_mod_pos_eq [where q = "4 * a + b + 1"]) simp_all
    with True show ?thesis by simp
  next
    case False
    with assms have "4 * c + e + 1 < 100" by linarith
    with assms have "?y mod 100 = 4 * c + e + 1"
      by (intro int_mod_pos_eq [where q = "4 * a + b"]) simp_all
    with False show ?thesis by simp
  qed
  have m400: "?y mod 400 = (if b = 3 \<and> c = 24 \<and> e = 3 then 0 else 100 * b + 4 * c + e + 1)"
  proof (cases "b = 3 \<and> c = 24 \<and> e = 3")
    case True
    then have "?y mod 400 = 0" by (intro int_mod_pos_eq [where q = "a + 1"]) simp_all
    with True show ?thesis by simp
  next
    case False
    with assms have "100 * b + 4 * c + e + 1 < 400" by linarith
    with assms have "?y mod 400 = 100 * b + 4 * c + e + 1"
      by (intro int_mod_pos_eq [where q = a]) simp_all
    with False show ?thesis by simp
  qed
  from assms show ?thesis
    unfolding is_leap_def m4 m100 m400 by auto
qed

lemma not_leap_1: "\<not> is_leap 1"
  by (simp add: is_leap_def)

lemma month_day:
  fixes r :: int and L :: bool
  assumes "0 \<le> r" and "r < 365"
  defines "m0 \<equiv> (r + 50) div 32"
  defines "prec \<equiv> days_before_month 1 m0 + (if m0 > 2 \<and> L then 1 else 0)"
  defines "m \<equiv> if prec > r then m0 - 1 else m0"
  defines "d \<equiv> if prec > r
                then r - (prec - (days_in_month 1 (m0 - 1) + (if m0 - 1 = 2 \<and> L then 1 else 0))) + 1
                else r - prec + 1"
  shows "1 \<le> m \<and> m \<le> 12 \<and> 1 \<le> d
         \<and> d \<le> days_in_month 1 m + (if m = 2 \<and> L then 1 else 0)
         \<and> days_before_month 1 m + (if m > 2 \<and> L then 1 else 0) + d = r + 1"
proof -
  have q: "r + 50 = 32 * m0 + (r + 50) mod 32" "0 \<le> (r + 50) mod 32" "(r + 50) mod 32 < 32"
    by (simp_all add: m0_def)
  define t where "t = (r + 50) mod 32"
  from q have q': "r = 32 * m0 + t - 50" "0 \<le> t" "t < 32" by (simp_all add: t_def)
  with assms(1,2) have "1 \<le> m0" "m0 \<le> 12" by linarith+
  then have "m0 = 1 \<or> m0 = 2 \<or> m0 = 3 \<or> m0 = 4 \<or> m0 = 5 \<or> m0 = 6 \<or> m0 = 7
    \<or> m0 = 8 \<or> m0 = 9 \<or> m0 = 10 \<or> m0 = 11 \<or> m0 = 12" by presburger
  then show ?thesis
  proof (elim disjE)
    assume "m0 = 1" with q' assms(1,2) show ?thesis
      unfolding m_def d_def prec_def
      by (simp add: days_before_month_def days_in_month_def not_leap_1)
  next
    assume "m0 = 2" with q' assms(1,2) show ?thesis
      unfolding m_def d_def prec_def
      by (simp add: days_before_month_def days_in_month_def not_leap_1)
  next
    assume "m0 = 3" with q' assms(1,2) show ?thesis
      unfolding m_def d_def prec_def
      by (simp add: days_before_month_def days_in_month_def not_leap_1)
  next
    assume "m0 = 4" with q' assms(1,2) show ?thesis
      unfolding m_def d_def prec_def
      by (simp add: days_before_month_def days_in_month_def not_leap_1)
  next
    assume "m0 = 5" with q' assms(1,2) show ?thesis
      unfolding m_def d_def prec_def
      by (simp add: days_before_month_def days_in_month_def not_leap_1)
  next
    assume "m0 = 6" with q' assms(1,2) show ?thesis
      unfolding m_def d_def prec_def
      by (simp add: days_before_month_def days_in_month_def not_leap_1)
  next
    assume "m0 = 7" with q' assms(1,2) show ?thesis
      unfolding m_def d_def prec_def
      by (simp add: days_before_month_def days_in_month_def not_leap_1)
  next
    assume "m0 = 8" with q' assms(1,2) show ?thesis
      unfolding m_def d_def prec_def
      by (simp add: days_before_month_def days_in_month_def not_leap_1)
  next
    assume "m0 = 9" with q' assms(1,2) show ?thesis
      unfolding m_def d_def prec_def
      by (simp add: days_before_month_def days_in_month_def not_leap_1)
  next
    assume "m0 = 10" with q' assms(1,2) show ?thesis
      unfolding m_def d_def prec_def
      by (simp add: days_before_month_def days_in_month_def not_leap_1)
  next
    assume "m0 = 11" with q' assms(1,2) show ?thesis
      unfolding m_def d_def prec_def
      by (simp add: days_before_month_def days_in_month_def not_leap_1)
  next
    assume "m0 = 12" with q' assms(1,2) show ?thesis
      unfolding m_def d_def prec_def
      by (simp add: days_before_month_def days_in_month_def not_leap_1)
  qed
qed

lemma days_before_month_split:
  "days_before_month y m = days_before_month 1 m + (if m > 2 \<and> is_leap y then 1 else 0)"
  by (simp add: days_before_month_def not_leap_1)

lemma days_in_month_split:
  "days_in_month y m = days_in_month 1 m + (if m = 2 \<and> is_leap y then 1 else 0)"
  by (simp add: days_in_month_def not_leap_1)

lemma ord2ymd_correct:
  assumes "1 \<le> n0"
  shows "toordinal (ord2ymd n0) = n0
         \<and> 1 \<le> month (ord2ymd n0) \<and> month (ord2ymd n0) \<le> 12
         \<and> 1 \<le> day (ord2ymd n0)
         \<and> day (ord2ymd n0) \<le> days_in_month (year (ord2ymd n0)) (month (ord2ymd n0))"
proof -
  define n where "n = n0 - 1"
  define a where "a = n div 146097"
  define r1 where "r1 = n mod 146097"
  define b where "b = r1 div 36524"
  define r2 where "r2 = r1 mod 36524"
  define c where "c = r2 div 1461"
  define r3 where "r3 = r2 mod 1461"
  define e where "e = r3 div 365"
  define r4 where "r4 = r3 mod 365"
  from assms have n: "0 \<le> n" by (simp add: n_def)
  note yp = year_parts [OF n a_def r1_def b_def r2_def c_def r3_def e_def r4_def]
  define y where "y = a * 400 + 1 + b * 100 + c * 4 + e"
  define L where "L \<longleftrightarrow> e = 3 \<and> (c \<noteq> 24 \<or> b = 3)"
  define m0 where "m0 = (r4 + 50) div 32"
  define prec where "prec = days_before_month 1 m0 + (if m0 > 2 \<and> L then 1 else 0)"
  have o: "ord2ymd n0 =
     (if e = 4 \<or> b = 4 then \<lparr>year = y - 1, month = 12, day = 31\<rparr>
      else if prec > r4
           then \<lparr>year = y, month = m0 - 1,
                  day = r4 - (prec - (days_in_month 1 (m0 - 1)
                                      + (if m0 - 1 = 2 \<and> L then 1 else 0))) + 1\<rparr>
           else \<lparr>year = y, month = m0, day = r4 - prec + 1\<rparr>)"
    unfolding ord2ymd_def Let_def prec_def m0_def L_def y_def r4_def e_def r3_def c_def r2_def
      b_def r1_def a_def n_def
    by simp
  show ?thesis
  proof (cases "e = 4 \<or> b = 4")
    case True
    then have o': "ord2ymd n0 = \<lparr>year = y - 1, month = 12, day = 31\<rparr>" by (simp add: o)
    show ?thesis
    proof (cases "b = 4")
      case True
      with yp have z: "c = 0" "e = 0" "r4 = 0" by simp_all
      have yy: "y - 1 = 400 * a + 100 * 3 + 4 * 24 + 3 + 1"
        by (simp add: y_def True z)
      have dby: "days_before_year (y - 1) = 146097 * a + 36524 * 3 + 1461 * 24 + 365 * 3"
        unfolding yy by (rule days_before_year_closed) simp_all
      have lp: "is_leap (y - 1)"
        unfolding yy by (subst is_leap_closed) simp_all
      from yp(1) True z have nn: "n = 146097 * a + 146096" by simp
      from dby lp nn show ?thesis
        unfolding o' toordinal_def ymd2ord_def
        by (simp add: days_before_month_def days_in_month_def n_def)
    next
      case False
      with \<open>e = 4 \<or> b = 4\<close> have e4: "e = 4" by simp
      with yp have z: "r4 = 0" "c \<le> 23" by simp_all
      from False yp have b3: "0 \<le> b" "b \<le> 3" by simp_all
      have yy: "y - 1 = 400 * a + 100 * b + 4 * c + 3 + 1"
        by (simp add: y_def e4)
      have dby: "days_before_year (y - 1) = 146097 * a + 36524 * b + 1461 * c + 365 * 3"
        unfolding yy using b3 yp z by (intro days_before_year_closed) simp_all
      have lp: "is_leap (y - 1)"
        unfolding yy using b3 yp z by (subst is_leap_closed) simp_all
      from yp(1) e4 z have nn: "n = 146097 * a + 36524 * b + 1461 * c + 1460" by simp
      from dby lp nn show ?thesis
        unfolding o' toordinal_def ymd2ord_def
        by (simp add: days_before_month_def days_in_month_def n_def)
    qed
  next
    case False
    with yp have bnd: "0 \<le> b" "b \<le> 3" "0 \<le> c" "c \<le> 24" "0 \<le> e" "e \<le> 3"
      by simp_all
    have yy: "y = 400 * a + 100 * b + 4 * c + e + 1" by (simp add: y_def)
    have dby: "days_before_year y = 146097 * a + 36524 * b + 1461 * c + 365 * e"
      unfolding yy using bnd by (rule days_before_year_closed)
    have lp: "is_leap y \<longleftrightarrow> L"
      unfolding yy L_def using bnd by (rule is_leap_closed)
    note md = month_day [OF yp(8,9), of L, folded m0_def, folded prec_def]
    show ?thesis
    proof (cases "prec > r4")
      case True
      with False have o': "ord2ymd n0 = \<lparr>year = y, month = m0 - 1,
                  day = r4 - (prec - (days_in_month 1 (m0 - 1)
                                      + (if m0 - 1 = 2 \<and> L then 1 else 0))) + 1\<rparr>"
        by (simp add: o)
      from md True dby yp(1) show ?thesis
        unfolding o' toordinal_def ymd2ord_def
        by (simp add: days_before_month_split [of y] days_in_month_split [of y] lp n_def)
    next
      case False
      with \<open>\<not> (e = 4 \<or> b = 4)\<close> have o': "ord2ymd n0 = \<lparr>year = y, month = m0, day = r4 - prec + 1\<rparr>"
        by (simp add: o)
      from md False dby yp(1) show ?thesis
        unfolding o' toordinal_def ymd2ord_def
        by (simp add: days_before_month_split [of y] days_in_month_split [of y] lp n_def)
    qed
  qed
qed

lemma ord2ymd_valid:
  assumes "1 \<le> n" and "n \<le> MAXORDINAL"
  shows "valid_date (ord2ymd n)"
proof -
  let ?d = "ord2ymd n"
  from ord2ymd_correct [OF assms(1)] have t: "toordinal ?d = n"
    and m: "1 \<le> month ?d" "month ?d \<le> 12"
    and d: "1 \<le> day ?d" "day ?d \<le> days_in_month (year ?d) (month ?d)"
    by simp_all
  from day_of_year_bounds [OF m d]
  have doy: "1 \<le> days_before_month (year ?d) (month ?d) + day ?d"
    "days_before_month (year ?d) (month ?d) + day ?d \<le> 366"
    by (simp_all split: if_splits)
  from t have s: "days_before_year (year ?d) + (days_before_month (year ?d) (month ?d) + day ?d) = n"
    by (simp add: toordinal_def ymd2ord_def)
  have "year ?d \<le> 9999"
  proof (rule ccontr)
    assume "\<not> year ?d \<le> 9999"
    then have "10000 \<le> year ?d" by simp
    from days_before_year_mono [OF this] have "3652059 \<le> days_before_year (year ?d)"
      by (simp add: days_before_year_def)
    with s doy assms(2) show False by (simp add: MAXORDINAL_def)
  qed
  moreover have "1 \<le> year ?d"
  proof (rule ccontr)
    assume "\<not> 1 \<le> year ?d"
    then have "year ?d \<le> 0" by simp
    from days_before_year_mono [OF this] have "days_before_year (year ?d) \<le> - 366"
      by (simp add: days_before_year_def)
    with s doy assms(1) show False by simp
  qed
  ultimately show ?thesis using m d by (simp add: valid_date_def)
qed

lemma congrats_day_weekend:
  assumes "valid_date bday" and "5 \<le> weekday bday"
  shows "weekday (congrats_day bday) = 0
         \<and> valid_date (congrats_day bday)
         \<and> toordinal (congrats_day bday) = toordinal bday + (7 - weekday bday)
         \<and> 1 \<le> 7 - weekday bday \<and> 7 - weekday bday \<le> 2"
proof -
  define t where "t = toordinal bday"
  define w where "w = (t + 6) mod 7"
  have w: "weekday bday = w" by (simp add: weekday_def t_def w_def)
  from assms(2) w have w5: "5 \<le> w" "w < 7" by (simp_all add: w_def)
  from toordinal_bounds [OF assms(1)] have b: "1 \<le> t" by (simp add: t_def)
  from weekend_shift_in_range [OF assms] have
    "0 < t + (7 - w) \<and> t + (7 - w) \<le> MAXORDINAL"
    by (simp add: date_add_days_def Let_def t_def w split: if_splits)
  then have r: "1 \<le> t + (7 - w)" "t + (7 - w) \<le> MAXORDINAL" by simp_all
  have c: "congrats_day bday = ord2ymd (t + (7 - w))"
    using assms(2) by (simp add: congrats_day_def w t_def)
  from ord2ymd_correct [OF r(1)] have o: "toordinal (ord2ymd (t + (7 - w))) = t + (7 - w)"
    by simp
  have "t + 6 = 7 * ((t + 6) div 7) + w" by (simp add: w_def)
  then have e: "t + (7 - w) + 6 = 7 * ((t + 6) div 7 + 1)" by simp
  have "(t + (7 - w) + 6) mod 7 = 0" unfolding e by simp
  with o have 1: "weekday (congrats_day bday) = 0"
    unfolding c weekday_def by simp
  from ord2ymd_valid [OF r] have 2: "valid_date (congrats_day bday)"
    unfolding c by simp
  from o have 3: "toordinal (congrats_day bday) = toordinal bday + (7 - weekday bday)"
    unfolding c w by (simp add: t_def)
  from w5 have 4: "1 \<le> 7 - weekday bday \<and> 7 - weekday bday \<le> 2"
    unfolding w by simp
  from 1 2 3 4 show ?thesis by blast
qed

section \<open>The upcoming birthdays\<close>

lemma date_update_year: "d\<lparr>year := y\<rparr> = \<lparr>year = y, month = month d, day = day d\<rparr>"
  by (cases d) simp

lemma replace_year_valid:
  "valid_date (d\<lparr>year := y\<rparr>) \<Longrightarrow> replace_year d y = Inr (d\<lparr>year := y\<rparr>)"
  by (simp add: replace_year_def new_date_def valid_date_def date_update_year)

lemma congrats_entry_replaceable:
  assumes b: "birthday r = Some b" and p: "strptime_dmY b = Inr d"
    and rp: "replaceable today d"
  shows "congrats_entry today r = Inr (expected_entry today r)"
proof -
  let ?b0 = "d\<lparr>year := year today\<rparr>"
  from rp have v0: "valid_date ?b0" by (simp add: replaceable_def)
  have r0: "replace_year d (year today) = Inr ?b0" by (rule replace_year_valid [OF v0])
  have occ: "(if date_less ?b0 today then replace_year ?b0 (year today + 1) else Inr ?b0)
               = Inr (occurrence today d)"
       and vocc: "valid_date (occurrence today d)"
  proof -
    show "(if date_less ?b0 today then replace_year ?b0 (year today + 1) else Inr ?b0)
               = Inr (occurrence today d)"
    proof (cases "date_less ?b0 today")
      case True
      with rp have "valid_date (?b0\<lparr>year := year today + 1\<rparr>)" by (simp add: replaceable_def)
      from replace_year_valid [OF this] True show ?thesis by (simp add: occurrence_def)
    next
      case False
      then show ?thesis by (simp add: occurrence_def)
    qed
    from rp v0 show "valid_date (occurrence today d)"
      by (simp add: occurrence_def replaceable_def)
  qed
  have sh: "(if 5 \<le> weekday (occurrence today d)
             then date_add_days (occurrence today d) (7 - weekday (occurrence today d))
             else Inr (occurrence today d)) = Inr (congrats_day (occurrence today d))"
    using weekend_shift_in_range [OF vocc] by (simp add: congrats_day_def)
  show ?thesis
    unfolding congrats_entry_def expected_entry_def
    by (simp add: b p r0 occ sh in_window_def date_sub_days_def)
qed

lemma upcoming_loop_expected:
  assumes "list_all (\<lambda>r. case birthday r of
                     None \<Rightarrow> True
                   | Some b \<Rightarrow> (case strptime_dmY b of
                                  Inl e \<Rightarrow> False
                                | Inr d \<Rightarrow> replaceable today d)) rs"
  shows "upcoming_loop today rs acc = Inr (acc @ List.map_filter (expected_entry today) rs)"
  using assms
proof (induction rs arbitrary: acc)
  case Nil
  then show ?case by (simp add: map_filter_simps)
next
  case (Cons r rs)
  have e: "congrats_entry today r = Inr (expected_entry today r)"
  proof (cases "birthday r")
    case None
    then show ?thesis by (simp add: congrats_entry_def expected_entry_def)
  next
    case (Some b)
    with Cons.prems obtain d where "strptime_dmY b = Inr d" "replaceable today d"
      by (auto split: sum.splits)
    with Some show ?thesis by (intro congrats_entry_replaceable)
  qed
  from Cons.prems have "list_all (\<lambda>r. case birthday r of
                     None \<Rightarrow> True
                   | Some b \<Rightarrow> (case strptime_dmY b of
                                  Inl e \<Rightarrow> False
                                | Inr d \<Rightarrow> replaceable today d)) rs" by simp
  from Cons.IH [OF this] e show ?case
    by (cases "expected_entry today r") (simp_all add: map_filter_simps)
qed

lemma get_upcoming_birthdays_expected:
  "replacements_ok today book \<Longrightarrow>
   get_upcoming_birthdays today book = Inr (upcoming_expected today book)"
  using upcoming_loop_expected [of today "map snd book" "[]"]
  by (simp add: replacements_ok_def get_upcoming_birthdays_def upcoming_expected_def)

lemma upcoming_birthdays_examples:
  "get_upcoming_birthdays \<lparr>year = 2024, month = 6, day = 10\<rparr>
     [(''ann'', \<lparr>name = ''ann'', phones = [], birthday = Some ''12.06.1990''\<rparr>),
      (''bob'', \<lparr>name = ''bob'', phones = [], birthday = Some ''15.06.1985''\<rparr>),
      (''eve'', \<lparr>name = ''eve'', phones = [], birthday = Some ''18.06.1985''\<rparr>)]
     = Inr [(''ann'', ''12.06.2024''), (''bob'', ''17.06.2024'')]"
  "get_upcoming_birthdays \<lparr>year = 2024, month = 12, day = 30\<rparr>
     [(''ann'', \<lparr>name = ''ann'', phones = [], birthday = Some ''01.01.1990''\<rparr>)]
     = Inr [(''ann'', ''01.01.2025'')]"
  by code_simp+

text \<open>
  C3: for every book and every date \<open>today\<close>, \<^verbatim>\<open>get_upcoming_birthdays\<close> lists a record
  exactly when the next occurrence of its birthday is at most seven days ahead, with the
  date moved to the Monday after a weekend. Lemma \<open>get_upcoming_birthdays_expected\<close>
  proves this whenever no replacement of the year fails, and \<open>congrats_day_weekend\<close>
  that the date moved is the following Monday. It does not hold of every book: a
  birthday on 29 February makes the replacement raise in a year that is not a leap year,
  and then the query returns no list at all. On 27 February 2023, the record of \<^verbatim>\<open>ann\<close>,
  born on 1 March, is to be listed with the date \<^verbatim>\<open>01.03.2023\<close>, a Wednesday; with the
  record of \<^verbatim>\<open>bob\<close>, born on 29 February, in the same book the query raises
  \<^verbatim>\<open>ValueError\<close> and the handler returns the text of that error.
\<close>

theorem upcoming_birthdays_leap_day_input:
  "expected_entry \<lparr>year = 2023, month = 2, day = 27\<rparr>
     \<lparr>name = ''ann'', phones = [''0123456789''], birthday = Some ''01.03.1990''\<rparr>
     = Some (''ann'', ''01.03.2023'')
   \<and> get_upcoming_birthdays \<lparr>year = 2023, month = 2, day = 27\<rparr>
        [(''ann'', \<lparr>name = ''ann'', phones = [''0123456789''],
                   birthday = Some ''01.03.1990''\<rparr>),
         (''bob'', \<lparr>name = ''bob'', phones = [''1111111111''],
                   birthday = Some ''29.02.2020''\<rparr>)]
       = Inl (ValueError ''day is out of range for month'')
   \<and> fst (birthdays \<lparr>year = 2023, month = 2, day = 27\<rparr> []
        [(''ann'', \<lparr>name = ''ann'', phones = [''0123456789''],
                   birthday = Some ''01.03.1990''\<rparr>),
         (''bob'', \<lparr>name = ''bob'', phones = [''1111111111''],
                   birthday = Some ''29.02.2020''\<rparr>)])
       = Inr ''day is out of range for month''"
  by code_simp

lemma Birthday_accepted:
  assumes "\<not> isl (Birthday b)"
  shows "\<exists>d. strptime_dmY b = Inr d \<and> valid_date d"
proof (cases "strptime_dmY b")
  case (Inl e)
  with assms show ?thesis by (cases e) (simp_all add: Birthday_def)
next
  case (Inr d)
  with strptime_dmY_Inr [OF Inr] show ?thesis by simp
qed

lemma valid_date_other_year:
  assumes "valid_date d" and "\<not> (month d = 2 \<and> day d = 29)" and "1 \<le> y" and "y \<le> 9999"
  shows "valid_date (d\<lparr>year := y\<rparr>)"
  using assms by (auto simp: valid_date_def days_in_month_def split: if_splits)

lemma replaceable_not_leap_day:
  assumes "valid_date today" and "year today < 9999" and "valid_date d"
    and "\<not> (month d = 2 \<and> day d = 29)"
  shows "replaceable today d"
proof -
  from assms(1,2) have y: "1 \<le> year today" "year today \<le> 9999" "1 \<le> year today + 1"
    "year today + 1 \<le> 9999"
    by (simp_all add: valid_date_def)
  from valid_date_other_year [OF assms(3,4) y(1,2)] valid_date_other_year [OF assms(3,4) y(3,4)]
  show ?thesis by (simp add: replaceable_def)
qed

lemma congrats_entry_leap_day:
  assumes "valid_date today" and "\<not> is_leap (year today)" and "leap_day_birthday r"
  shows "congrats_entry today r = Inl (ValueError ''day is out of range for month'')"
proof -
  from assms(3) obtain b d where b: "birthday r = Some b" and p: "strptime_dmY b = Inr d"
    and l: "month d = 2" "day d = 29"
    by (auto simp: leap_day_birthday_def split: option.splits sum.splits)
  from assms(1,2) l have "replace_year d (year today)
      = Inl (ValueError ''day is out of range for month'')"
    by (simp add: replace_year_def new_date_def valid_date_def days_in_month_def)
  with b p show ?thesis by (simp add: congrats_entry_def)
qed

lemma congrats_entry_no_leap_day:
  assumes "valid_date today" and "year today < 9999"
    and "case birthday r of None \<Rightarrow> True | Some b \<Rightarrow> \<not> isl (Birthday b)"
    and "\<not> leap_day_birthday r"
  shows "congrats_entry today r = Inr (expected_entry today r)"
proof (cases "birthday r")
  case None
  then show ?thesis by (simp add: congrats_entry_def expected_entry_def)
next
  case (Some b)
  with assms(3) have "\<not> isl (Birthday b)" by simp
  from Birthday_accepted [OF this] obtain d where p: "strptime_dmY b = Inr d"
    and v: "valid_date d" by blast
  from assms(4) Some p have "\<not> (month d = 2 \<and> day d = 29)"
    by (simp add: leap_day_birthday_def)
  from replaceable_not_leap_day [OF assms(1,2) v this] Some p show ?thesis
    by (intro congrats_entry_replaceable)
qed

lemma upcoming_loop_leap_day:
  assumes "valid_date today" and "\<not> is_leap (year today)" and "year today < 9999"
    and "list_all (\<lambda>r. case birthday r of None \<Rightarrow> True | Some b \<Rightarrow> \<not> isl (Birthday b)) rs"
    and "list_ex leap_day_birthday rs"
  shows "upcoming_loop today rs acc = Inl (ValueError ''day is out of range for month'')"
  using assms(4,5)
proof (induction rs arbitrary: acc)
  case Nil
  then show ?case by simp
next
  case (Cons r rs)
  show ?case
  proof (cases "leap_day_birthday r")
    case True
    from congrats_entry_leap_day [OF assms(1,2) True] show ?thesis by simp
  next
    case False
    from Cons.prems have v: "case birthday r of None \<Rightarrow> True | Some b \<Rightarrow> \<not> isl (Birthday b)"
      by simp
    from Cons.prems False have rest:
      "list_all (\<lambda>r. case birthday r of None \<Rightarrow> True | Some b \<Rightarrow> \<not> isl (Birthday b)) rs"
      "list_ex leap_day_birthday rs"
      by simp_all
    from congrats_entry_no_leap_day [OF assms(1,3) v False] Cons.IH [OF rest] show ?thesis
      by (cases "expected_entry today r") simp_all
  qed
qed


text \<open>
  C10: a book that the handlers build (every stored birthday accepted by \<^verbatim>\<open>Birthday\<close>)
  and that holds a birthday on 29 February, queried on a date whose year is not a leap
  year, makes \<^verbatim>\<open>get_upcoming_birthdays\<close> raise \<^verbatim>\<open>ValueError\<close> where it replaces the year,
  and the \<^verbatim>\<open>birthdays\<close> handler returns the text of that error, \<^verbatim>\<open>day is out of range
  for month\<close>, and neither a listing nor \<^verbatim>\<open>No upcoming birthdays.\<close> The state of the
  witness is reached from the empty book by \<^verbatim>\<open>add bob 0123456789\<close> and
  \<^verbatim>\<open>add-birthday bob 29.02.2020\<close>.
\<close>

theorem leap_day_failure:
  assumes "valid_date today" and "\<not> is_leap (year today)" and "year today < 9999"
    and "birthdays_validated book"
    and "list_ex leap_day_birthday (map snd book)"
  shows "get_upcoming_birthdays today book
           = Inl (ValueError ''day is out of range for month'')
         \<and> birthdays today args book = (Inr ''day is out of range for month'', book)"
proof -
  from assms(4) have
    "list_all (\<lambda>r. case birthday r of None \<Rightarrow> True | Some b \<Rightarrow> \<not> isl (Birthday b))
       (map snd book)"
    by (simp add: birthdays_validated_def)
  from upcoming_loop_leap_day [OF assms(1,2,3) this assms(5)]
  have "get_upcoming_birthdays today book = Inl (ValueError ''day is out of range for month'')"
    by (simp add: get_upcoming_birthdays_def)
  then show ?thesis
    by (simp add: birthdays_def input_error_def birthdays_func_def)
qed

theorem leap_day_failure_witness:
  "snd (add_birthday [''bob'', ''29.02.2020''] (snd (add_contact [''bob'', ''0123456789''] [])))
     = [(''bob'', \<lparr>name = ''bob'', phones = [''0123456789''],
                  birthday = Some ''29.02.2020''\<rparr>)]
   \<and> is_leap 2020
   \<and> valid_date \<lparr>year = 2023, month = 2, day = 25\<rparr>
   \<and> \<not> is_leap (year \<lparr>year = 2023, month = 2, day = 25\<rparr>)
   \<and> get_upcoming_birthdays \<lparr>year = 2023, month = 2, day = 25\<rparr>
        [(''bob'', \<lparr>name = ''bob'', phones = [''0123456789''],
                   birthday = Some ''29.02.2020''\<rparr>)]
       = Inl (ValueError ''day is out of range for month'')
   \<and> birthdays \<lparr>year = 2023, month = 2, day = 25\<rparr> []
        [(''bob'', \<lparr>name = ''bob'', phones = [''0123456789''],
                   birthday = Some ''29.02.2020''\<rparr>)]
       = (Inr ''day is out of range for month'',
          [(''bob'', \<lparr>name = ''bob'', phones = [''0123456789''],
                     birthday = Some ''29.02.2020''\<rparr>)])"
proof -
  let ?book = "[(''bob'', \<lparr>name = ''bob'', phones = [''0123456789''],
                          birthday = Some ''29.02.2020''\<rparr>)]"
  let ?today = "\<lparr>year = 2023, month = 2, day = 25\<rparr>"
  have r: "snd (add_birthday [''bob'', ''29.02.2020'']
                 (snd (add_contact [''bob'', ''0123456789''] []))) = ?book"
    by code_simp
  have l: "is_leap 2020" by code_simp
  have h1: "valid_date ?today" by code_simp
  have h2: "\<not> is_leap (year ?today)" by code_simp
  have h3: "year ?today < 9999" by simp
  have h4: "birthdays_validated ?book" by code_simp
  have h5: "list_ex leap_day_birthday (map snd ?book)" by code_simp
  show ?thesis
    using r l h1 h2 leap_day_failure [OF h1 h2 h3 h4 h5, of "[]"]
    by simp
qed

end
